theory Spec2Isabelle
  imports Main
begin

section \<open>Data model\<close>

text \<open>
  The development embeds the class \<open>Debugger\<close> (the session orchestrator of the debugger
  command line). Protocol values are the records of the debug protocol; JavaScript
  numbers that carry thread ids, line numbers and counts are integers.
\<close>

record thread =
  thd_id :: int
  thd_name :: string

record source =
  src_path :: "string option"
  src_sourceReference :: "int option"
  src_name :: "string option"

record stackFrame =
  frame_line :: int
  frame_column :: int
  frame_name :: string
  frame_source :: "source option"

text \<open>
  A thrown \<open>Error\<close> carries its message; \<open>AssertionError\<close> is what \<open>invariant\<close> throws;
  \<open>Rejected\<close> is a promise of a collaborator (protocol session, file system) that rejects.
\<close>

datatype err = Error string | AssertionError string | Rejected string

text \<open>The calls the orchestrator makes on its \<open>ConsoleIO\<close>, in the order made.\<close>

datatype consoleCall = Output string | OutputLine string | StartInput | StopInput

text \<open>The requests sent to a protocol session, and the event streams subscribed to.\<close>

datatype request =
    Initialize string string bool
  | Launch string
  | Threads
  | StackTrace int int
  | StepIn int
  | Next int
  | Source int
  | Disconnect

datatype stream =
  OutputEvents | ContinuedEvents | StopEvents | ExitedDebugeeEvents | TerminateDebugeeEvents

text \<open>
  Modelled from the spec: \<open>SourceFileCache\<close> (\<open>./SourceFileCache\<close>, not part of the
  sources at hand). Cached line sequences, keyed by source reference or by path; the
  two key spaces are separate.
\<close>

record sourceFileCache =
  byReference :: "int \<rightharpoonup> string list"
  byPath :: "string \<rightharpoonup> string list"

text \<open>
  The fields of \<open>Debugger\<close>. A session handle is the index of the \<open>VsDebugSession\<close>
  object in the list \<open>sessions\<close> of all objects constructed so far (each entry keeps the
  adapter info it was constructed with). \<open>requests\<close> records, in order, which request
  method was called on which session object, and \<open>subscriptions\<close> which event stream
  of which session object was subscribed to. \<open>closing\<close> counts the calls of
  \<open>closeSession\<close> that are suspended at \<open>await disconnect()\<close> and that nobody awaits
  (the event handlers call \<open>closeSession\<close> without \<open>await\<close>).
\<close>

record debugger =
  capabilities :: "string option"
  console :: "consoleCall list"
  debugSession :: "nat option"
  activeThread :: "int option"
  threads :: "int \<rightharpoonup> string"
  sourceFiles :: sourceFileCache
  sessions :: "string list"
  requests :: "(nat \<times> request) list"
  subscriptions :: "(nat \<times> stream) list"
  closing :: nat

text \<open>
  Modelled from the spec: the protocol session (\<open>VsDebugSession\<close>, \<open>../lib/VsDebugSession\<close>,
  not part of the sources at hand) and the file system behind the cache. An environment
  gives the outcome of every request the orchestrator can await: the response body, or
  the rejection that is then thrown at the \<open>await\<close>.
\<close>

record env =
  initializeResp :: "err + string"
  launchResp :: "err + unit"
  threadsResp :: "err + thread list"
  stackTraceResp :: "int \<Rightarrow> int \<Rightarrow> err + stackFrame list"
  stepInResp :: "err + unit"
  nextResp :: "err + unit"
  sourceResp :: "int \<Rightarrow> err + string"
  disconnectResp :: "err + unit"
  normalizePath :: "string \<Rightarrow> string"
  readFile :: "string \<Rightarrow> err + string"

definition emptyCache :: sourceFileCache where
  "emptyCache = \<lparr>byReference = Map.empty, byPath = Map.empty\<rparr>"

text \<open>The state after the constructor: no session, no active thread, an empty directory.\<close>

definition initial :: debugger where
  "initial = \<lparr>capabilities = None, console = [], debugSession = None, activeThread = None,
     threads = Map.empty, sourceFiles = emptyCache, sessions = [], requests = [],
     subscriptions = [], closing = 0\<rparr>"

section \<open>Strings and arrays\<close>

text \<open>
  JavaScript numbers are doubles. The integers that are modelled exactly are the safe
  integers, those of absolute value up to \<open>2\<^sup>5\<^sup>3 - 1\<close>: on them \<open>+ 1\<close> is exact and a
  template literal renders the number as its plain decimal numeral, which is what
  \<open>toString\<close> gives. Beyond them the engine rounds and, from \<open>10\<^sup>2\<^sup>1\<close> on, prints an
  exponent; nothing is stated about a printed number outside the safe integers.
\<close>

definition safeInteger :: "int \<Rightarrow> bool" where
  "safeInteger i = (- 9007199254740991 \<le> i \<and> i \<le> 9007199254740991)"

fun showNat :: "nat \<Rightarrow> string" where
  "showNat n = (if n < 10 then [''0123456789'' ! n] else showNat (n div 10) @ [''0123456789'' ! (n mod 10)])"

declare showNat.simps [simp del]

definition toString :: "int \<Rightarrow> string" where
  "toString i = (if i < 0 then CHR ''-'' # showNat (nat (- i)) else showNat (nat i))"

text \<open>
  Modelled from the spec: the line splitting of \<open>SourceFileCache\<close> (``the platform-neutral
  line-break convention''): a line ends at a line feed, and a carriage return directly
  before the line feed belongs to the break.
\<close>

fun splitLines :: "string \<Rightarrow> string list" where
  "splitLines [] = [[]]"
| "splitLines (c # cs) =
     (if c = CHR 0x0A then [] # splitLines cs
      else if c = CHR 0x0D \<and> (case cs of [] \<Rightarrow> False | x # _ \<Rightarrow> x = CHR 0x0A) then splitLines cs
      else (case splitLines cs of [] \<Rightarrow> [[c]] | l # ls \<Rightarrow> (c # l) # ls))"

text \<open>
  Modelled from the spec: \<open>nuclideUri.split(nuclideUri.resolve(path)).pop()\<close>
  (\<open>nuclide-commons/nuclideUri\<close>, not part of the sources at hand), which the spec calls
  the last path segment: the text after the last slash.
\<close>

fun pathSegments :: "string \<Rightarrow> string list" where
  "pathSegments [] = [[]]"
| "pathSegments (c # cs) =
     (if c = CHR ''/'' then [] # pathSegments cs
      else (case pathSegments cs of [] \<Rightarrow> [[c]] | l # ls \<Rightarrow> (c # l) # ls))"

text \<open>
  Modelled from the spec: the last path segment (see \<open>pathSegments\<close>); the list of
  segments is never empty.
\<close>

definition lastPathSegment :: "string \<Rightarrow> string" where
  "lastPathSegment p = last (pathSegments p)"

text \<open>
  \<open>Array.prototype.slice(start, end)\<close> on integers: a negative index counts from the
  end, both indices are clamped to the array, and an empty range gives the empty array.
\<close>

definition slice :: "'a list \<Rightarrow> int \<Rightarrow> int \<Rightarrow> 'a list" where
  "slice xs start end =
     (let len = int (length xs);
          k = (if start < 0 then max (len + start) 0 else min start len);
          final = (if end < 0 then max (len + end) 0 else min end len)
      in take (nat (final - k)) (drop (nat k) xs))"

section \<open>Operations of the orchestrator\<close>

text \<open>
  Every operation takes the state of the orchestrator and returns the state it leaves,
  beside its result when it has one; a thrown error is the result \<open>Inl\<close>, and what was
  changed before the throw stays changed. An asynchronous operation is suspended at
  each \<open>await\<close>, and events can be delivered while it is. \<open>openSession\<close> with
  \<open>_cacheThreads\<close>, and \<open>closeSession\<close>, which the two exit handlers start without
  waiting for it, are therefore given in their parts, one for each stretch between two
  \<open>await\<close>s, and as the whole call that results when nothing comes between the parts
  and each request settles as the environment says. The other operations only read the
  handle, the active thread and the directory, and are given as whole calls.
\<close>

definition send :: "nat \<Rightarrow> request \<Rightarrow> debugger \<Rightarrow> debugger" where
  "send s r d = d\<lparr>requests := requests d @ [(s, r)]\<rparr>"

definition tell :: "consoleCall \<Rightarrow> debugger \<Rightarrow> debugger" where
  "tell c d = d\<lparr>console := console d @ [c]\<rparr>"

definition ensureDebugSession :: "debugger \<Rightarrow> err + nat" where
  "ensureDebugSession d =
     (case debugSession d of
        None \<Rightarrow> Inl (Error ''There is no active debugging session.'')
      | Some s \<Rightarrow> Inr s)"

definition getThreads :: "debugger \<Rightarrow> err + (int \<rightharpoonup> string)" where
  "getThreads d =
     (case ensureDebugSession d of Inl x \<Rightarrow> Inl x | Inr _ \<Rightarrow> Inr (threads d))"

definition getActiveThread :: "debugger \<Rightarrow> err + int option" where
  "getActiveThread d =
     (case ensureDebugSession d of Inl x \<Rightarrow> Inl x | Inr _ \<Rightarrow> Inr (activeThread d))"

text \<open>
  \<open>getStackTrace(thread, frameCount = 0)\<close>: an absent frame count is \<open>0\<close>. The session
  check comes first; the request is sent, and its outcome is the call's outcome.
\<close>

definition getStackTrace ::
  "env \<Rightarrow> int \<Rightarrow> int option \<Rightarrow> debugger \<Rightarrow> (err + stackFrame list) \<times> debugger" where
  "getStackTrace e thread frameCount d =
     (let n = (case frameCount of None \<Rightarrow> 0 | Some k \<Rightarrow> k) in
      case ensureDebugSession d of
        Inl x \<Rightarrow> (Inl x, d)
      | Inr s \<Rightarrow> (stackTraceResp e thread n, send s (StackTrace thread n) d))"

definition stepIn :: "env \<Rightarrow> debugger \<Rightarrow> (err + unit) \<times> debugger" where
  "stepIn e d =
     (case activeThread d of
        None \<Rightarrow> (Inl (Error ''There is no active thread to step into.''), d)
      | Some t \<Rightarrow>
          (case ensureDebugSession d of
             Inl x \<Rightarrow> (Inl x, d)
           | Inr s \<Rightarrow> (stepInResp e, send s (StepIn t) d)))"

definition stepOver :: "env \<Rightarrow> debugger \<Rightarrow> (err + unit) \<times> debugger" where
  "stepOver e d =
     (case activeThread d of
        None \<Rightarrow> (Inl (Error ''There is no active thread to step through.''), d)
      | Some t \<Rightarrow>
          (case ensureDebugSession d of
             Inl x \<Rightarrow> (Inl x, d)
           | Inr s \<Rightarrow> (nextResp e, send s (Next t) d)))"

subsection \<open>Source text\<close>

text \<open>
  \<open>_getSourceByReference\<close>, the fetch callback handed to the cache: it needs a session
  and asks it for the text behind a source reference.
\<close>

definition getSourceByReference :: "env \<Rightarrow> int \<Rightarrow> debugger \<Rightarrow> (err + string) \<times> debugger" where
  "getSourceByReference e sourceReference d =
     (case ensureDebugSession d of
        Inl x \<Rightarrow> (Inl x, d)
      | Inr s \<Rightarrow> (sourceResp e sourceReference, send s (Source sourceReference) d))"

text \<open>
  Modelled from the spec: \<open>SourceFileCache.getFileDataBySourceReference\<close>. A hit returns
  the stored lines without a fetch; a miss fetches the whole text through the callback,
  splits it, stores the lines under the reference and returns them; a failed fetch
  stores nothing.
\<close>

definition getFileDataBySourceReference ::
  "env \<Rightarrow> int \<Rightarrow> debugger \<Rightarrow> (err + string list) \<times> debugger" where
  "getFileDataBySourceReference e ref d =
     (case byReference (sourceFiles d) ref of
        Some ls \<Rightarrow> (Inr ls, d)
      | None \<Rightarrow>
          (case getSourceByReference e ref d of
             (Inl x, d') \<Rightarrow> (Inl x, d')
           | (Inr content, d') \<Rightarrow>
               (Inr (splitLines content),
                d'\<lparr>sourceFiles := (sourceFiles d')
                     \<lparr>byReference := (byReference (sourceFiles d'))(ref \<mapsto> splitLines content)\<rparr>\<rparr>)))"

text \<open>
  Modelled from the spec: \<open>SourceFileCache.getFileDataByPath\<close>. The same contract, keyed
  by the normalised path and fetching from the file system.
\<close>

definition getFileDataByPath ::
  "env \<Rightarrow> string \<Rightarrow> debugger \<Rightarrow> (err + string list) \<times> debugger" where
  "getFileDataByPath e path d =
     (let key = normalizePath e path in
      case byPath (sourceFiles d) key of
        Some ls \<Rightarrow> (Inr ls, d)
      | None \<Rightarrow>
          (case readFile e key of
             Inl x \<Rightarrow> (Inl x, d)
           | Inr content \<Rightarrow>
               (Inr (splitLines content),
                d\<lparr>sourceFiles := (sourceFiles d)
                     \<lparr>byPath := (byPath (sourceFiles d))(key \<mapsto> splitLines content)\<rparr>\<rparr>)))"

text \<open>Modelled from the spec: \<open>SourceFileCache.flush\<close>, which discards every entry.\<close>

definition flush :: "sourceFileCache \<Rightarrow> sourceFileCache" where
  "flush c = emptyCache"

text \<open>
  \<open>getSourceLines\<close>, in two steps as in the source: first the lines of the whole text
  (by reference when the reference is present and not \<open>0\<close>, else by path when there is
  one, else none), then the window \<open>start\<close>, \<open>length\<close> cut out of them.
\<close>

definition sourceLinesOf :: "env \<Rightarrow> source \<Rightarrow> debugger \<Rightarrow> (err + string list) \<times> debugger" where
  "sourceLinesOf e src d =
     (case src_sourceReference src of
        Some ref \<Rightarrow>
          (if ref \<noteq> 0 then getFileDataBySourceReference e ref d
           else (case src_path src of
                   Some p \<Rightarrow> getFileDataByPath e p d
                 | None \<Rightarrow> (Inr [], d)))
      | None \<Rightarrow>
          (case src_path src of
             Some p \<Rightarrow> getFileDataByPath e p d
           | None \<Rightarrow> (Inr [], d)))"

definition getSourceLines ::
  "env \<Rightarrow> source \<Rightarrow> int \<Rightarrow> int \<Rightarrow> debugger \<Rightarrow> (err + string list) \<times> debugger" where
  "getSourceLines e src start len d =
     (case sourceLinesOf e src d of
        (Inl x, d') \<Rightarrow> (Inl x, d')
      | (Inr lines, d') \<Rightarrow>
          (if start \<ge> int (length lines) then (Inr [], d')
           else (Inr (slice lines start (min (start + len) (int (length lines)))), d')))"

subsection \<open>Opening and closing a session\<close>

text \<open>
  \<open>new Map(threads.map(thd => [thd.id, thd.name]))\<close>: the entries are set in the order
  of the list, a later one replacing an earlier one with the same id.
\<close>

definition threadMap :: "thread list \<Rightarrow> (int \<rightharpoonup> string)" where
  "threadMap ths = foldl (\<lambda>m thd. m(thd_id thd \<mapsto> thd_name thd)) Map.empty ths"

text \<open>
  \<open>_cacheThreads\<close> in its two parts. The part before the \<open>await\<close> asserts that there
  is a session and calls \<open>threads()\<close> on it; the part after the \<open>await\<close> stores the
  directory and the active thread, and does not look at the handle again.
\<close>

definition cacheThreads_start :: "debugger \<Rightarrow> err + debugger" where
  "cacheThreads_start d =
     (case debugSession d of
        None \<Rightarrow> Inl (AssertionError ''_cacheThreads called without session'')
      | Some s \<Rightarrow> Inr (send s Threads d))"

definition cacheThreads_finish :: "thread list \<Rightarrow> debugger \<Rightarrow> debugger" where
  "cacheThreads_finish ths d =
     d\<lparr>threads := threadMap ths,
       activeThread := (case ths of [] \<Rightarrow> None | t # _ \<Rightarrow> Some (thd_id t))\<rparr>"

text \<open>The call when nothing comes between its two parts: \<open>threads()\<close> settles as the environment says.\<close>

definition cacheThreads :: "env \<Rightarrow> debugger \<Rightarrow> (err + unit) \<times> debugger" where
  "cacheThreads e d =
     (case cacheThreads_start d of
        Inl x \<Rightarrow> (Inl x, d)
      | Inr d1 \<Rightarrow>
          (case threadsResp e of
             Inl x \<Rightarrow> (Inl x, d1)
           | Inr ths \<Rightarrow> (Inr (), cacheThreads_finish ths d1)))"

text \<open>
  \<open>openSession\<close> in its parts, one for each \<open>await\<close>. The first constructs a session
  object, stores its handle (what was stored before is overwritten) and calls
  \<open>initialize\<close>; it returns the handle, which the later parts use as the local \<open>session\<close>.
  The second, when \<open>initialize\<close> has resolved, stores the capabilities, subscribes to the
  five event streams and calls \<open>launch\<close>. When \<open>launch\<close> has resolved, \<open>_cacheThreads\<close>
  follows. The handlers are subscribed from the second part on, so an event can be
  delivered while \<open>launch\<close> or \<open>threads\<close> is awaited.
\<close>

definition subscribeAll :: "nat \<Rightarrow> debugger \<Rightarrow> debugger" where
  "subscribeAll s d =
     d\<lparr>subscriptions := subscriptions d @
        [(s, OutputEvents), (s, ContinuedEvents), (s, StopEvents),
         (s, ExitedDebugeeEvents), (s, TerminateDebugeeEvents)]\<rparr>"

definition openSession_start :: "string \<Rightarrow> debugger \<Rightarrow> nat \<times> debugger" where
  "openSession_start adapterInfo d =
     (let s = length (sessions d)
      in (s, send s (Initialize ''fbdb'' ''path'' False)
               (d\<lparr>debugSession := Some s, sessions := sessions d @ [adapterInfo]\<rparr>)))"

definition openSession_initialized :: "nat \<Rightarrow> string \<Rightarrow> string \<Rightarrow> debugger \<Rightarrow> debugger" where
  "openSession_initialized s launchArgs caps d =
     send s (Launch launchArgs) (subscribeAll s (d\<lparr>capabilities := Some caps\<rparr>))"

text \<open>
  The call when nothing comes between its parts: every request settles as the
  environment says; a rejected request ends the call there, with everything done so far
  left in place.
\<close>

definition openSession :: "env \<Rightarrow> string \<Rightarrow> string \<Rightarrow> debugger \<Rightarrow> (err + unit) \<times> debugger" where
  "openSession e adapterInfo launchArgs d =
     (case openSession_start adapterInfo d of
        (s, d2) \<Rightarrow>
          (case initializeResp e of
             Inl x \<Rightarrow> (Inl x, d2)
           | Inr caps \<Rightarrow>
               (let d4 = openSession_initialized s launchArgs caps d2
                in case launchResp e of
                     Inl x \<Rightarrow> (Inl x, d4)
                   | Inr _ \<Rightarrow> cacheThreads e d4)))"

text \<open>
  \<open>closeSession\<close> in its two parts. The part before the \<open>await\<close> returns at once when
  there is no session and otherwise sends \<open>disconnect\<close>; the part after the \<open>await\<close>
  clears the directory, the handle and the active thread and flushes the cache.
\<close>

definition closeSession_start :: "debugger \<Rightarrow> debugger option" where
  "closeSession_start d =
     (case debugSession d of None \<Rightarrow> None | Some s \<Rightarrow> Some (send s Disconnect d))"

definition closeSession_finish :: "debugger \<Rightarrow> debugger" where
  "closeSession_finish d =
     d\<lparr>threads := Map.empty, debugSession := None, activeThread := None,
       sourceFiles := flush (sourceFiles d)\<rparr>"

text \<open>The call as its awaiting caller sees it: \<open>disconnect\<close> settles as the environment says.\<close>

definition closeSession :: "env \<Rightarrow> debugger \<Rightarrow> (err + unit) \<times> debugger" where
  "closeSession e d =
     (case closeSession_start d of
        None \<Rightarrow> (Inr (), d)
      | Some d1 \<Rightarrow>
          (case disconnectResp e of
             Inl x \<Rightarrow> (Inl x, d1)
           | Inr _ \<Rightarrow> (Inr (), closeSession_finish d1)))"

text \<open>
  The call as the event handlers make it, without \<open>await\<close>: control comes back to the
  handler when the call suspends, and the second part runs when \<open>disconnect\<close> settles
  (\<open>disconnectSettled\<close>); a rejection then ends the suspended call with nothing reset.
\<close>

definition closeSession_detached :: "debugger \<Rightarrow> debugger" where
  "closeSession_detached d =
     (case closeSession_start d of
        None \<Rightarrow> d
      | Some d1 \<Rightarrow> d1\<lparr>closing := closing d1 + 1\<rparr>)"

definition disconnectSettled :: "err + unit \<Rightarrow> debugger \<Rightarrow> debugger" where
  "disconnectSettled r d =
     (if closing d = 0 then d
      else (case r of
              Inl _ \<Rightarrow> d\<lparr>closing := closing d - 1\<rparr>
            | Inr _ \<Rightarrow> closeSession_finish (d\<lparr>closing := closing d - 1\<rparr>)))"

subsection \<open>Event reactions\<close>

text \<open>The subscription on output events: the text goes to the console as it is.\<close>

definition onOutput :: "string \<Rightarrow> debugger \<Rightarrow> debugger" where
  "onOutput out d = tell (Output out) d"

definition onContinued :: "int \<Rightarrow> debugger \<Rightarrow> debugger" where
  "onContinued threadId d =
     (if Some threadId = activeThread d then tell StopInput d else d)"

definition sourceFromTopFrame :: "stackFrame list \<Rightarrow> source option" where
  "sourceFromTopFrame frames = (case frames of [] \<Rightarrow> None | f # _ \<Rightarrow> frame_source f)"

record topOfStack =
  tos_line :: string
  tos_name :: string
  tos_frame :: stackFrame

definition getTopOfStackSourceInfo ::
  "env \<Rightarrow> int \<Rightarrow> debugger \<Rightarrow> (err + topOfStack option) \<times> debugger" where
  "getTopOfStackSourceInfo e threadId d =
     (case getStackTrace e threadId (Some 1) d of
        (Inl x, d1) \<Rightarrow> (Inl x, d1)
      | (Inr frames, d1) \<Rightarrow>
          (case frames of
             [] \<Rightarrow> (Inr None, d1)
           | frame # _ \<Rightarrow>
               (case sourceFromTopFrame frames of
                  None \<Rightarrow> (Inr None, d1)
                | Some src \<Rightarrow>
                    (case getSourceLines e src (frame_line frame) 1 d1 of
                       (Inl x, d2) \<Rightarrow> (Inl x, d2)
                     | (Inr lines, d2) \<Rightarrow>
                         (case src_path src of
                            Some p \<Rightarrow>
                              (Inr (Some \<lparr>tos_line = (case lines of [] \<Rightarrow> [] | l # _ \<Rightarrow> l),
                                          tos_name = lastPathSegment p, tos_frame = frame\<rparr>), d2)
                          | None \<Rightarrow>
                              (case src_name src of
                                 Some n \<Rightarrow>
                                   (Inr (Some \<lparr>tos_line = (case lines of [] \<Rightarrow> [] | l # _ \<Rightarrow> l),
                                               tos_name = n, tos_frame = frame\<rparr>), d2)
                               | None \<Rightarrow> (Inr None, d2)))))))"

text \<open>
  \<open>_onStopped\<close>: nothing happens unless the event names a thread and that thread is the
  active one. A failure while resolving the top of the stack ends the handler before
  anything is printed or signalled.
\<close>

definition onStopped :: "env \<Rightarrow> int option \<Rightarrow> debugger \<Rightarrow> (err + unit) \<times> debugger" where
  "onStopped e stopThread d =
     (case stopThread of
        None \<Rightarrow> (Inr (), d)
      | Some t \<Rightarrow>
          (if stopThread = activeThread d then
             (case getTopOfStackSourceInfo e t d of
                (Inl x, d1) \<Rightarrow> (Inl x, d1)
              | (Inr None, d1) \<Rightarrow> (Inr (), tell StartInput d1)
              | (Inr (Some info), d1) \<Rightarrow>
                  (Inr (),
                   tell StartInput
                     (tell (OutputLine (tos_name info @ '':'' @
                              toString (frame_line (tos_frame info) + 1) @ '' '' @ tos_line info)) d1)))
           else (Inr (), d)))"

definition onExitedDebugee :: "int \<Rightarrow> debugger \<Rightarrow> debugger" where
  "onExitedDebugee exitCode d =
     closeSession_detached (tell (OutputLine (''Target exited with status '' @ toString exitCode)) d)"

definition onTerminatedDebugee :: "debugger \<Rightarrow> debugger" where
  "onTerminatedDebugee d =
     (case debugSession d of
        None \<Rightarrow> d
      | Some _ \<Rightarrow> tell StartInput (closeSession_detached (tell (OutputLine ''The target has exited.'') d)))"

section \<open>Notions of the specification\<close>

text \<open>
  Modelled from the spec: when a protocol session counts as alive. The session object
  itself is not part of the sources at hand; a session is taken to be alive from its
  construction until \<open>disconnect\<close> has been sent to it.
\<close>

definition alive :: "debugger \<Rightarrow> nat \<Rightarrow> bool" where
  "alive d s = (s < length (sessions d) \<and> (s, Disconnect) \<notin> set (requests d))"

text \<open>The sessions alive in a state, and the streams subscribed to on one session.\<close>

definition aliveSessions :: "debugger \<Rightarrow> nat list" where
  "aliveSessions d = filter (alive d) [0..<length (sessions d)]"

definition subscriptionsOf :: "debugger \<Rightarrow> nat \<Rightarrow> stream list" where
  "subscriptionsOf d s = map snd (filter (\<lambda>x. fst x = s) (subscriptions d))"

text \<open>
  The window in the words of the specification: the lines with index from \<open>start\<close> up
  to, and not including, the smaller of \<open>start + length\<close> and the number of lines; and
  the same applied to the outcome of a cache lookup, a failed lookup staying a failure.
\<close>

definition window :: "'a list \<Rightarrow> nat \<Rightarrow> nat \<Rightarrow> 'a list" where
  "window lines start len = map (\<lambda>i. lines ! i) [start ..< min (start + len) (length lines)]"

definition windowOf ::
  "int \<Rightarrow> int \<Rightarrow> (err + string list) \<times> debugger \<Rightarrow> (err + string list) \<times> debugger" where
  "windowOf start len r =
     (case r of
        (Inl x, d') \<Rightarrow> (Inl x, d')
      | (Inr lines, d') \<Rightarrow> (Inr (window lines (nat start) (nat len)), d'))"

text \<open>
  The number that a decimal numeral stands for: an optional minus sign and then digits,
  without leading zeros and without a negative zero; any other text stands for none.
  This is how a reader takes the number printed in a console line.
\<close>

definition digitOf :: "char \<Rightarrow> nat option" where
  "digitOf c = map_of [(CHR ''0'', 0), (CHR ''1'', 1), (CHR ''2'', 2), (CHR ''3'', 3),
     (CHR ''4'', 4), (CHR ''5'', 5), (CHR ''6'', 6), (CHR ''7'', 7), (CHR ''8'', 8),
     (CHR ''9'', 9)] c"

fun readNat :: "nat \<Rightarrow> string \<Rightarrow> nat option" where
  "readNat acc [] = Some acc"
| "readNat acc (c # cs) =
     (case digitOf c of None \<Rightarrow> None | Some k \<Rightarrow> readNat (10 * acc + k) cs)"

fun decimalValue :: "string \<Rightarrow> int option" where
  "decimalValue [] = None"
| "decimalValue (c # cs) =
     (if c = CHR ''-'' then
        (case cs of
           [] \<Rightarrow> None
         | c' # _ \<Rightarrow> if c' = CHR ''0'' then None else map_option (\<lambda>n. - int n) (readNat 0 cs))
      else if c = CHR ''0'' \<and> cs \<noteq> [] then None
      else map_option int (readNat 0 (c # cs)))"

text \<open>
  The resolved name in the words of the specification: the last path segment when the
  source has a path, else the name of the source, else none.
\<close>

definition resolvedName :: "source \<Rightarrow> string option" where
  "resolvedName src =
     (case src_path src of Some p \<Rightarrow> Some (lastPathSegment p) | None \<Rightarrow> src_name src)"

text \<open>
  The invariant of the active thread in the words of the specification: it is non-null
  only while there is a session, and its id is then a key of the thread directory.
\<close>

definition activeThreadInv :: "debugger \<Rightarrow> bool" where
  "activeThreadInv d =
     (case activeThread d of
        None \<Rightarrow> True
      | Some t \<Rightarrow> debugSession d \<noteq> None \<and> threads d t \<noteq> None)"

text \<open>The state a call of \<open>openSession\<close> leaves when all three of its requests resolve.\<close>

definition opened :: "string \<Rightarrow> string \<Rightarrow> string \<Rightarrow> thread list \<Rightarrow> debugger \<Rightarrow> debugger" where
  "opened a l caps ths d =
     d\<lparr>debugSession := Some (length (sessions d)),
       sessions := sessions d @ [a],
       capabilities := Some caps,
       requests := requests d @ [(length (sessions d), Initialize ''fbdb'' ''path'' False),
                                 (length (sessions d), Launch l),
                                 (length (sessions d), Threads)],
       subscriptions := subscriptions d @
         [(length (sessions d), OutputEvents), (length (sessions d), ContinuedEvents),
          (length (sessions d), StopEvents), (length (sessions d), ExitedDebugeeEvents),
          (length (sessions d), TerminateDebugeeEvents)],
       threads := threadMap ths,
       activeThread := (case ths of [] \<Rightarrow> None | t # _ \<Rightarrow> Some (thd_id t))\<rparr>"

text \<open>
  What the lookups (stack trace, source text) leave as it was: the handle, the active
  thread, the directory, the console and the count of suspended closes.
\<close>

definition unchanged :: "debugger \<Rightarrow> debugger \<Rightarrow> bool" where
  "unchanged d d' =
     (debugSession d' = debugSession d \<and> activeThread d' = activeThread d
      \<and> threads d' = threads d \<and> console d' = console d \<and> closing d' = closing d)"

section \<open>A concrete session\<close>

text \<open>
  An adapter that accepts every request, reports one thread \<open>main\<close> with id \<open>1\<close>, and
  whose only stack frame is at line \<open>4\<close> (counted from \<open>0\<close>) of \<open>/a/b.js\<close>; and the state
  of the orchestrator after a session was opened against it.
\<close>

definition scenarioEnv :: env where
  "scenarioEnv = \<lparr>initializeResp = Inr ''capabilities'', launchResp = Inr (),
     threadsResp = Inr [\<lparr>thd_id = 1, thd_name = ''main''\<rparr>],
     stackTraceResp = (\<lambda>t n. Inr [\<lparr>frame_line = 4, frame_column = 0, frame_name = ''f'',
        frame_source = Some \<lparr>src_path = Some ''/a/b.js'', src_sourceReference = None,
                               src_name = None\<rparr>\<rparr>]),
     stepInResp = Inr (), nextResp = Inr (),
     sourceResp = (\<lambda>r. Inr ''x''),
     disconnectResp = Inr (),
     normalizePath = (\<lambda>p. p),
     readFile = (\<lambda>p. Inr ''l0\<newline>l1\<newline>l2\<newline>l3\<newline>console.log('hi')\<newline>'')\<rparr>"

definition scenarioOpen :: debugger where
  "scenarioOpen = snd (openSession scenarioEnv ''adapter'' ''launch'' initial)"

text \<open>The source descriptor of the scenario: the file \<open>/a/b.js\<close>, known by path only.\<close>

definition bjs :: source where
  "bjs = \<lparr>src_path = Some ''/a/b.js'', src_sourceReference = None, src_name = None\<rparr>"

text \<open>The only stack frame of the scenario.\<close>

definition scenarioFrame :: stackFrame where
  "scenarioFrame = \<lparr>frame_line = 4, frame_column = 0, frame_name = ''f'', frame_source = Some bjs\<rparr>"

text \<open>
  The same session at three other moments: suspended at \<open>await launch\<close>, with the
  handlers subscribed; suspended at \<open>await threads()\<close> after a terminated event was
  delivered while \<open>launch\<close> was awaited; and closed, after an exited event with status
  \<open>1\<close> whose \<open>disconnect\<close> has resolved.
\<close>

definition scenarioLaunching :: debugger where
  "scenarioLaunching =
     openSession_initialized 0 ''launch'' ''capabilities'' (snd (openSession_start ''adapter'' initial))"

definition scenarioRaced :: debugger where
  "scenarioRaced = send 0 Threads (onTerminatedDebugee scenarioLaunching)"

definition scenarioClosed :: debugger where
  "scenarioClosed = disconnectSettled (Inr ()) (onExitedDebugee 1 scenarioOpen)"

section \<open>Basic facts\<close>

lemma scenarioOpen_eq:
  "scenarioOpen = \<lparr>capabilities = Some ''capabilities'', console = [], debugSession = Some 0,
     activeThread = Some 1, threads = [1 \<mapsto> ''main''], sourceFiles = emptyCache,
     sessions = [''adapter''],
     requests = [(0, Initialize ''fbdb'' ''path'' False), (0, Launch ''launch''), (0, Threads)],
     subscriptions = [(0, OutputEvents), (0, ContinuedEvents), (0, StopEvents),
        (0, ExitedDebugeeEvents), (0, TerminateDebugeeEvents)], closing = 0\<rparr>"
  by (simp add: scenarioOpen_def openSession_def openSession_start_def openSession_initialized_def scenarioEnv_def initial_def send_def
      subscribeAll_def cacheThreads_def cacheThreads_start_def cacheThreads_finish_def threadMap_def Let_def)

lemma toString_1: "toString 1 = ''1''"
  by (simp add: toString_def showNat.simps)

lemma scenarioLaunching_eq:
  "scenarioLaunching = \<lparr>capabilities = Some ''capabilities'', console = [], debugSession = Some 0,
     activeThread = None, threads = Map.empty, sourceFiles = emptyCache,
     sessions = [''adapter''],
     requests = [(0, Initialize ''fbdb'' ''path'' False), (0, Launch ''launch'')],
     subscriptions = [(0, OutputEvents), (0, ContinuedEvents), (0, StopEvents),
        (0, ExitedDebugeeEvents), (0, TerminateDebugeeEvents)], closing = 0\<rparr>"
  by (simp add: scenarioLaunching_def openSession_start_def openSession_initialized_def
      initial_def send_def subscribeAll_def Let_def)

lemma scenarioClosed_eq:
  "scenarioClosed = \<lparr>capabilities = Some ''capabilities'',
     console = [OutputLine ''Target exited with status 1''], debugSession = None,
     activeThread = None, threads = Map.empty, sourceFiles = emptyCache,
     sessions = [''adapter''],
     requests = [(0, Initialize ''fbdb'' ''path'' False), (0, Launch ''launch''), (0, Threads),
                 (0, Disconnect)],
     subscriptions = [(0, OutputEvents), (0, ContinuedEvents), (0, StopEvents),
        (0, ExitedDebugeeEvents), (0, TerminateDebugeeEvents)], closing = 0\<rparr>"
  by (simp add: scenarioClosed_def scenarioOpen_eq onExitedDebugee_def closeSession_detached_def
      closeSession_start_def tell_def send_def disconnectSettled_def closeSession_finish_def
      flush_def toString_1)

lemma safeInteger_small: "safeInteger 1" "safeInteger 4" "safeInteger 5"
  by (simp_all add: safeInteger_def)

subsection \<open>Decimal numerals\<close>

text \<open>
  \<open>toString\<close> gives the decimal numeral of the number, and no other text is one: the
  rendering is determined by what it is read as.
\<close>

lemma digitOf_nth:
  assumes "k < 10"
  shows "digitOf (''0123456789'' ! k) = Some k"
proof -
  from assms have "k = 0 \<or> k = 1 \<or> k = 2 \<or> k = 3 \<or> k = 4 \<or> k = 5 \<or> k = 6 \<or> k = 7 \<or> k = 8 \<or> k = 9"
    by arith
  then show ?thesis
    by (elim disjE) (simp_all add: digitOf_def)
qed

lemma digit_nth_not_minus: "k < 10 \<Longrightarrow> ''0123456789'' ! k \<noteq> CHR ''-''"
  using digitOf_nth [of k] by (auto simp: digitOf_def)

lemma digit_nth_zero: "k < 10 \<Longrightarrow> ''0123456789'' ! k = CHR ''0'' \<Longrightarrow> k = 0"
  using digitOf_nth [of k] by (simp add: digitOf_def)

lemma digitOf_Some:
  assumes "digitOf c = Some k"
  shows "k < 10 \<and> ''0123456789'' ! k = c"
  using assms by (auto simp: digitOf_def split: if_splits)

lemma readNat_append:
  "readNat acc (xs @ ys) = (case readNat acc xs of None \<Rightarrow> None | Some a \<Rightarrow> readNat a ys)"
  by (induction xs arbitrary: acc) (simp_all split: option.splits)

lemma readNat_showNat: "readNat 0 (showNat n) = Some n"
proof (induction n rule: showNat.induct)
  case (1 n)
  show ?case
  proof (cases "n < 10")
    case True
    then show ?thesis
      by (subst showNat.simps) (simp add: digitOf_nth)
  next
    case False
    with 1 have "readNat 0 (showNat (n div 10)) = Some (n div 10)"
      by simp
    with False show ?thesis
      by (subst showNat.simps) (simp add: readNat_append digitOf_nth)
  qed
qed

lemma showNat_first:
  "\<exists>c cs. showNat n = c # cs \<and> c \<noteq> CHR ''-'' \<and> (c = CHR ''0'' \<longrightarrow> n = 0 \<and> cs = [])"
proof (induction n rule: showNat.induct)
  case (1 n)
  show ?case
  proof (cases "n < 10")
    case True
    then show ?thesis
      by (subst showNat.simps) (auto simp: digit_nth_not_minus dest: digit_nth_zero)
  next
    case False
    with 1 obtain c cs where first: "showNat (n div 10) = c # cs" "c \<noteq> CHR ''-''"
        "c = CHR ''0'' \<longrightarrow> n div 10 = 0 \<and> cs = []"
      by blast
    from False have "n div 10 \<noteq> 0"
      by simp
    with first have "c \<noteq> CHR ''0''"
      by blast
    with False first show ?thesis
      by (subst showNat.simps) simp
  qed
qed

lemma decimalValue_toString: "decimalValue (toString i) = Some i"
proof (cases "i < 0")
  case True
  obtain c cs where first: "showNat (nat (- i)) = c # cs"
      "c = CHR ''0'' \<longrightarrow> nat (- i) = 0 \<and> cs = []"
    using showNat_first [of "nat (- i)"] by blast
  from True have "nat (- i) \<noteq> 0"
    by simp
  with first have "c \<noteq> CHR ''0''"
    by blast
  moreover have "readNat 0 (c # cs) = Some (nat (- i))"
    using readNat_showNat [of "nat (- i)"] by (simp only: first)
  ultimately show ?thesis
    using True by (simp add: toString_def first del: readNat.simps)
next
  case False
  obtain c cs where first: "showNat (nat i) = c # cs" "c \<noteq> CHR ''-''"
      "c = CHR ''0'' \<longrightarrow> nat i = 0 \<and> cs = []"
    using showNat_first [of "nat i"] by blast
  have "readNat 0 (c # cs) = Some (nat i)"
    using readNat_showNat [of "nat i"] by (simp only: first)
  with False first show ?thesis
    by (auto simp: toString_def simp del: readNat.simps)
qed


lemma readNat_ge: "readNat acc s = Some a \<Longrightarrow> acc \<le> a"
proof (induction s arbitrary: acc)
  case Nil
  then show ?case by simp
next
  case (Cons c cs)
  then obtain k where "digitOf c = Some k" and "readNat (10 * acc + k) cs = Some a"
    by (auto split: option.splits)
  with Cons.IH [of "10 * acc + k"] show ?case
    by simp
qed

lemma readNat_pos:
  assumes "readNat 0 (c # cs) = Some a" and "c \<noteq> CHR ''0''"
  shows "0 < a"
proof -
  from assms(1) obtain k where k: "digitOf c = Some k" and rest: "readNat k cs = Some a"
    by (auto split: option.splits)
  have "k \<noteq> 0"
  proof
    assume "k = 0"
    with digitOf_Some [OF k] have "c = CHR ''0''"
      by simp
    with assms(2) show False
      by simp
  qed
  with readNat_ge [OF rest] show ?thesis
    by simp
qed

lemma showNat_readNat:
  assumes "readNat 0 s = Some n" and "s \<noteq> []" and "hd s \<noteq> CHR ''0'' \<or> s = ''0''"
  shows "showNat n = s"
  using assms
proof (induction s arbitrary: n rule: rev_induct)
  case Nil
  then show ?case by simp
next
  case (snoc c xs)
  from snoc.prems(1) obtain a k where a: "readNat 0 xs = Some a" and k: "digitOf c = Some k"
      and n: "n = 10 * a + k"
    by (auto simp: readNat_append split: option.splits)
  from digitOf_Some [OF k] have digit: "k < 10" "''0123456789'' ! k = c"
    by simp_all
  show ?case
  proof (cases xs)
    case Nil
    with a have "a = 0"
      by simp
    with n digit Nil show ?thesis
      by (subst showNat.simps) simp
  next
    case (Cons x xs')
    with snoc.prems(3) have x: "x \<noteq> CHR ''0''"
      by auto
    from a have "readNat 0 (x # xs') = Some a"
      by (simp only: Cons)
    then have "0 < a"
      using x by (rule readNat_pos)
    from snoc.IH [OF a] Cons x have "showNat a = xs"
      by simp
    moreover from n digit \<open>0 < a\<close> have "\<not> n < 10" "n div 10 = a" "n mod 10 = k"
      by simp_all
    ultimately show ?thesis
      using digit by (subst showNat.simps) simp
  qed
qed

lemma decimalValue_unique:
  assumes "decimalValue s = Some i"
  shows "s = toString i"
proof (cases s)
  case Nil
  with assms show ?thesis by simp
next
  case (Cons c cs)
  show ?thesis
  proof (cases "c = CHR ''-''")
    case True
    with assms Cons obtain c' cs' n where cs: "cs = c' # cs'" and c': "c' \<noteq> CHR ''0''"
        and n: "readNat 0 cs = Some n" and i: "i = - int n"
      by (auto split: list.splits if_splits simp del: readNat.simps)
    from n have "readNat 0 (c' # cs') = Some n"
      by (simp only: cs)
    then have "0 < n"
      using c' by (rule readNat_pos)
    moreover from n cs c' have "showNat n = cs"
      by (intro showNat_readNat) simp_all
    ultimately show ?thesis
      using Cons True i by (simp add: toString_def)
  next
    case False
    with assms Cons obtain n where zero: "\<not> (c = CHR ''0'' \<and> cs \<noteq> [])"
        and n: "readNat 0 (c # cs) = Some n" and i: "i = int n"
      by (auto split: if_splits simp del: readNat.simps)
    from zero have "hd (c # cs) \<noteq> CHR ''0'' \<or> c # cs = ''0''"
      by auto
    with n have "showNat n = c # cs"
      by (intro showNat_readNat) simp_all
    with Cons i show ?thesis
      by (simp add: toString_def)
  qed
qed

lemma decimalValue_iff: "decimalValue s = Some i \<longleftrightarrow> s = toString i"
  using decimalValue_unique decimalValue_toString by blast

subsection \<open>The scenario file\<close>

lemma bjs_lines:
  "getFileDataByPath scenarioEnv ''/a/b.js'' scenarioOpen =
     (Inr [''l0'', ''l1'', ''l2'', ''l3'', ''console.log('hi')'', ''''],
      scenarioOpen\<lparr>sourceFiles := \<lparr>byReference = Map.empty,
         byPath = [''/a/b.js'' \<mapsto> [''l0'', ''l1'', ''l2'', ''l3'', ''console.log('hi')'', '''']]\<rparr>\<rparr>)"
  by (simp add: getFileDataByPath_def scenarioEnv_def scenarioOpen_eq emptyCache_def Let_def)

subsection \<open>The thread directory\<close>

lemma threadMap_foldl:
  "foldl (\<lambda>m thd. m(thd_id thd \<mapsto> thd_name thd)) m ths
     = m ++ map_of (rev (map (\<lambda>t. (thd_id t, thd_name t)) ths))"
proof (induction ths arbitrary: m)
  case Nil
  show ?case by simp
next
  case (Cons t ths)
  let ?f = "\<lambda>m thd. m(thd_id thd \<mapsto> thd_name thd)"
  let ?M = "map_of (rev (map (\<lambda>t. (thd_id t, thd_name t)) ths))"
  have "foldl ?f m (t # ths) = foldl ?f (m(thd_id t \<mapsto> thd_name t)) ths"
    by (simp only: foldl_Cons)
  also have "\<dots> = m(thd_id t \<mapsto> thd_name t) ++ ?M"
    by (rule Cons.IH)
  also have "\<dots> = m ++ ([thd_id t \<mapsto> thd_name t] ++ ?M)"
    by (rule ext) (simp add: map_add_def split: option.splits)
  also have "[thd_id t \<mapsto> thd_name t] ++ ?M
      = map_of (rev (map (\<lambda>t. (thd_id t, thd_name t)) (t # ths)))"
    by (simp only: list.map rev.simps map_of_append map_of.simps fst_conv snd_conv)
  finally show ?case .
qed

lemma threadMap_map_of:
  "threadMap ths = map_of (rev (map (\<lambda>t. (thd_id t, thd_name t)) ths))"
  by (simp add: threadMap_def threadMap_foldl)

lemma dom_threadMap: "dom (threadMap ths) = thd_id ` set ths"
  by (simp add: threadMap_map_of dom_map_of_conv_image_fst image_image)

lemma threadMap_name:
  assumes "t \<in> set ths"
    and "\<forall>u\<in>set ths. thd_id u = thd_id t \<longrightarrow> thd_name u = thd_name t"
  shows "threadMap ths (thd_id t) = Some (thd_name t)"
proof -
  from assms(1) have "thd_id t \<in> dom (threadMap ths)"
    by (simp add: dom_threadMap)
  then obtain n where n: "threadMap ths (thd_id t) = Some n"
    by blast
  then have "(thd_id t, n) \<in> set (rev (map (\<lambda>t. (thd_id t, thd_name t)) ths))"
    unfolding threadMap_map_of by (rule map_of_SomeD)
  then obtain u where "u \<in> set ths" "thd_id u = thd_id t" "thd_name u = n"
    by auto
  with assms(2) n show ?thesis
    by auto
qed

lemma threadMap_first: "threadMap (t # ths) (thd_id t) \<noteq> None"
proof -
  have "thd_id t \<in> dom (threadMap (t # ths))"
    unfolding dom_threadMap by simp
  then show ?thesis
    by blast
qed

subsection \<open>Outcomes of opening and closing\<close>

lemma openSession_resolved:
  assumes "initializeResp e = Inr caps" and "launchResp e = Inr u" and "threadsResp e = Inr ths"
  shows "openSession e a l d = (Inr (), opened a l caps ths d)"
  using assms
  by (simp add: openSession_def openSession_start_def openSession_initialized_def Let_def cacheThreads_def cacheThreads_start_def cacheThreads_finish_def send_def subscribeAll_def opened_def)

lemma openSession_rejected:
  assumes "(\<exists>x. initializeResp e = Inl x) \<or> (\<exists>x. launchResp e = Inl x) \<or> (\<exists>x. threadsResp e = Inl x)"
  shows "\<exists>x. fst (openSession e a l d) = Inl x"
proof (cases "initializeResp e")
  case (Inl x)
  then show ?thesis
    by (simp add: openSession_def openSession_start_def openSession_initialized_def Let_def)
next
  case init: (Inr caps)
  show ?thesis
  proof (cases "launchResp e")
    case (Inl x)
    with init show ?thesis
      by (simp add: openSession_def openSession_start_def openSession_initialized_def Let_def)
  next
    case launch: (Inr u)
    with init assms obtain x where "threadsResp e = Inl x"
      by auto
    with init launch show ?thesis
      by (simp add: openSession_def openSession_start_def openSession_initialized_def Let_def cacheThreads_def cacheThreads_start_def cacheThreads_finish_def send_def subscribeAll_def)
  qed
qed

lemma openSession_Inr:
  assumes "openSession e a l d = (Inr (), d')"
  obtains caps ths where "initializeResp e = Inr caps" and "launchResp e = Inr ()"
    and "threadsResp e = Inr ths" and "d' = opened a l caps ths d"
proof -
  have "\<not> (\<exists>x. fst (openSession e a l d) = Inl x)"
    by (simp add: assms)
  with openSession_rejected [of e a l d]
  have none: "\<not> ((\<exists>x. initializeResp e = Inl x) \<or> (\<exists>x. launchResp e = Inl x)
      \<or> (\<exists>x. threadsResp e = Inl x))"
    by blast
  obtain caps where init: "initializeResp e = Inr caps"
    using none by (cases "initializeResp e") auto
  have launch: "launchResp e = Inr ()"
    using none by (cases "launchResp e") auto
  obtain ths where ths: "threadsResp e = Inr ths"
    using none by (cases "threadsResp e") auto
  from openSession_resolved [OF init launch ths, of a l d] assms
  have "d' = opened a l caps ths d"
    by simp
  with init launch ths that show ?thesis
    by blast
qed

lemma closeSession_closed: "debugSession d = None \<Longrightarrow> closeSession e d = (Inr (), d)"
  by (simp add: closeSession_def closeSession_start_def)

lemma closeSession_open:
  assumes "debugSession d = Some s" and "disconnectResp e = Inr ()"
  shows "closeSession e d =
     (Inr (), d\<lparr>threads := Map.empty, debugSession := None, activeThread := None,
                 sourceFiles := emptyCache, requests := requests d @ [(s, Disconnect)]\<rparr>)"
  using assms
  by (simp add: closeSession_def closeSession_start_def closeSession_finish_def send_def flush_def)

lemma closed_after_settle:
  "debugSession (disconnectSettled (Inr ()) (onExitedDebugee c d)) = None"
proof (cases "debugSession d")
  case None
  then show ?thesis
    by (simp add: onExitedDebugee_def closeSession_detached_def closeSession_start_def tell_def
        disconnectSettled_def closeSession_finish_def)
next
  case (Some s)
  then show ?thesis
    by (simp add: onExitedDebugee_def closeSession_detached_def closeSession_start_def tell_def
        disconnectSettled_def closeSession_finish_def send_def)
qed

subsection \<open>Windows\<close>

lemma window_beyond: "length lines \<le> start \<Longrightarrow> window lines start len = []"
  by (simp add: window_def)

lemma length_window: "length (window lines start len) = min (start + len) (length lines) - start"
  by (simp add: window_def)

lemma take_drop_window: "take len (drop start lines) = window lines start len"
proof (rule nth_equalityI)
  show "length (take len (drop start lines)) = length (window lines start len)"
    by (simp add: length_window)
next
  fix i
  assume "i < length (take len (drop start lines))"
  then have i: "i < len" "start + i < length lines"
    by auto
  then have "i < length [start ..< min (start + len) (length lines)]"
    by simp
  then have "window lines start len ! i = lines ! (start + i)"
    unfolding window_def by (simp only: nth_map length_map nth_upt length_upt)
  with i show "take len (drop start lines) ! i = window lines start len ! i"
    by simp
qed

lemma slice_window:
  assumes "0 \<le> start" and "0 \<le> len" and "start < int (length lines)"
  shows "slice lines start (min (start + len) (int (length lines))) = window lines (nat start) (nat len)"
proof -
  have "slice lines start (min (start + len) (int (length lines)))
      = take (nat (min (start + len) (int (length lines)) - start)) (drop (nat start) lines)"
    using assms by (simp add: slice_def Let_def min_def)
  also have "\<dots> = window lines (nat start) (nat (min (start + len) (int (length lines)) - start))"
    by (rule take_drop_window)
  also have "\<dots> = window lines (nat start) (nat len)"
  proof (cases "start + len \<le> int (length lines)")
    case True
    then show ?thesis
      by (simp add: min_def)
  next
    case False
    with assms have "nat (min (start + len) (int (length lines)) - start) = length lines - nat start"
      and "length lines \<le> nat start + nat len"
      by (simp_all add: min_def)
    then show ?thesis
      using assms by (simp add: window_def)
  qed
  finally show ?thesis .
qed

lemma getSourceLines_windowOf:
  assumes "0 \<le> start" and "0 \<le> len"
  shows "getSourceLines e src start len d = windowOf start len (sourceLinesOf e src d)"
proof (cases "sourceLinesOf e src d")
  case (Pair r d')
  show ?thesis
  proof (cases r)
    case (Inl x)
    with Pair show ?thesis
      by (simp add: getSourceLines_def windowOf_def)
  next
    case (Inr lines)
    show ?thesis
    proof (cases "start < int (length lines)")
      case True
      with Pair Inr assms show ?thesis
        by (simp add: getSourceLines_def windowOf_def slice_window)
    next
      case False
      then have "window lines (nat start) (nat len) = []"
        using assms by (intro window_beyond) simp
      with False Pair Inr show ?thesis
        by (simp add: getSourceLines_def windowOf_def)
    qed
  qed
qed

subsection \<open>What the lookups leave unchanged\<close>

lemma unchanged_refl: "unchanged d d"
  by (simp add: unchanged_def)

lemma unchanged_trans: "unchanged d d' \<Longrightarrow> unchanged d' d'' \<Longrightarrow> unchanged d d''"
  by (simp add: unchanged_def)

lemma unchanged_send: "unchanged d (send s r d)"
  by (simp add: unchanged_def send_def)

lemma getSourceByReference_unchanged: "unchanged d (snd (getSourceByReference e r d))"
  by (simp add: getSourceByReference_def unchanged_refl unchanged_send split: sum.splits)

lemma getFileDataBySourceReference_unchanged:
  "unchanged d (snd (getFileDataBySourceReference e r d))"
proof (cases "byReference (sourceFiles d) r")
  case None
  obtain res d' where fetch: "getSourceByReference e r d = (res, d')"
    by (cases "getSourceByReference e r d")
  with getSourceByReference_unchanged [of d e r] have "unchanged d d'"
    by simp
  with None fetch show ?thesis
    by (cases res) (simp_all add: getFileDataBySourceReference_def unchanged_def)
next
  case (Some ls)
  then show ?thesis
    by (simp add: getFileDataBySourceReference_def unchanged_refl)
qed

lemma getFileDataByPath_unchanged: "unchanged d (snd (getFileDataByPath e p d))"
  by (simp add: getFileDataByPath_def Let_def unchanged_def split: option.splits sum.splits)

lemma sourceLinesOf_unchanged: "unchanged d (snd (sourceLinesOf e src d))"
  by (simp add: sourceLinesOf_def getFileDataBySourceReference_unchanged
      getFileDataByPath_unchanged unchanged_refl split: option.splits)

lemma getSourceLines_unchanged: "unchanged d (snd (getSourceLines e src start len d))"
proof -
  obtain res d' where look: "sourceLinesOf e src d = (res, d')"
    by (cases "sourceLinesOf e src d")
  with sourceLinesOf_unchanged [of d e src] have "unchanged d d'"
    by simp
  with look show ?thesis
    by (cases res) (simp_all add: getSourceLines_def)
qed

lemma getStackTrace_unchanged: "unchanged d (snd (getStackTrace e t n d))"
  by (simp add: getStackTrace_def Let_def unchanged_refl unchanged_send split: sum.splits)

lemma getTopOfStackSourceInfo_unchanged: "unchanged d (snd (getTopOfStackSourceInfo e t d))"
proof -
  obtain res d1 where trace: "getStackTrace e t (Some 1) d = (res, d1)"
    by (cases "getStackTrace e t (Some 1) d")
  with getStackTrace_unchanged [of d e t "Some 1"] have d1: "unchanged d d1"
    by simp
  show ?thesis
  proof (cases res)
    case (Inl x)
    with trace d1 show ?thesis
      by (simp add: getTopOfStackSourceInfo_def)
  next
    case (Inr frames)
    show ?thesis
    proof (cases frames)
      case Nil
      with trace d1 Inr show ?thesis
        by (simp add: getTopOfStackSourceInfo_def)
    next
      case (Cons frame rest)
      show ?thesis
      proof (cases "frame_source frame")
        case None
        with trace d1 Inr Cons show ?thesis
          by (simp add: getTopOfStackSourceInfo_def sourceFromTopFrame_def)
      next
        case (Some src)
        obtain res2 d2 where look: "getSourceLines e src (frame_line frame) 1 d1 = (res2, d2)"
          by (cases "getSourceLines e src (frame_line frame) 1 d1")
        with getSourceLines_unchanged [of d1 e src "frame_line frame" 1] have "unchanged d1 d2"
          by simp
        with d1 have "unchanged d d2"
          by (rule unchanged_trans)
        with trace Inr Cons Some look show ?thesis
          by (cases res2)
            (simp_all add: getTopOfStackSourceInfo_def sourceFromTopFrame_def split: option.splits)
      qed
    qed
  qed
qed

section \<open>Opening a session\<close>

text \<open>
  C1. When \<open>openSession\<close> has completed and \<open>threads()\<close> reported the list \<open>ths\<close>, the
  active thread handed out by \<open>getActiveThread\<close> is the id of the first thread of \<open>ths\<close>,
  or null when \<open>ths\<close> is empty. The thread directory handed out by \<open>getThreads\<close> has
  exactly the reported ids as keys, whatever it held before, and maps the id of every
  reported thread to that thread's name (for an id reported once, or always with the
  same name; were an id reported with two names, the later one is stored).
\<close>

theorem openSession_caches_threads:
  assumes "openSession e a l d = (Inr (), d')" and "threadsResp e = Inr ths"
  shows "getActiveThread d' = Inr (case ths of [] \<Rightarrow> None | t # _ \<Rightarrow> Some (thd_id t))
       \<and> getThreads d' = Inr (threads d')
       \<and> dom (threads d') = thd_id ` set ths
       \<and> (\<forall>t\<in>set ths. (\<forall>u\<in>set ths. thd_id u = thd_id t \<longrightarrow> thd_name u = thd_name t)
              \<longrightarrow> threads d' (thd_id t) = Some (thd_name t))"
proof -
  from assms(1) obtain caps ths' where "threadsResp e = Inr ths'" and d': "d' = opened a l caps ths' d"
    by (rule openSession_Inr)
  with assms(2) have "d' = opened a l caps ths d"
    by simp
  then have fields: "debugSession d' = Some (length (sessions d))" "threads d' = threadMap ths"
      "activeThread d' = (case ths of [] \<Rightarrow> None | t # _ \<Rightarrow> Some (thd_id t))"
    by (simp_all add: opened_def)
  have active: "getActiveThread d' = Inr (case ths of [] \<Rightarrow> None | t # _ \<Rightarrow> Some (thd_id t))"
    by (simp add: fields getActiveThread_def ensureDebugSession_def)
  have dir: "getThreads d' = Inr (threads d')"
    by (simp add: fields getThreads_def ensureDebugSession_def)
  have keys: "dom (threads d') = thd_id ` set ths"
    by (simp add: fields dom_threadMap)
  have names: "\<forall>t\<in>set ths. (\<forall>u\<in>set ths. thd_id u = thd_id t \<longrightarrow> thd_name u = thd_name t)
              \<longrightarrow> threads d' (thd_id t) = Some (thd_name t)"
    unfolding fields by (intro ballI impI) (rule threadMap_name)
  from active dir keys names show ?thesis
    by blast
qed

theorem openSession_caches_threads_witness:
  "openSession scenarioEnv ''adapter'' ''launch'' initial = (Inr (), scenarioOpen)
   \<and> threadsResp scenarioEnv = Inr [\<lparr>thd_id = 1, thd_name = ''main''\<rparr>]
   \<and> getActiveThread scenarioOpen = Inr (Some 1)
   \<and> getThreads scenarioOpen = Inr (threads scenarioOpen)
   \<and> dom (threads scenarioOpen) = {1}
   \<and> threads scenarioOpen 1 = Some ''main''"
proof -
  have run: "openSession scenarioEnv ''adapter'' ''launch'' initial = (Inr (), scenarioOpen)"
    by (simp add: scenarioOpen_def openSession_def openSession_start_def openSession_initialized_def scenarioEnv_def initial_def send_def
        subscribeAll_def cacheThreads_def cacheThreads_start_def cacheThreads_finish_def Let_def)
  have resp: "threadsResp scenarioEnv = Inr [\<lparr>thd_id = 1, thd_name = ''main''\<rparr>]"
    by (simp add: scenarioEnv_def)
  from openSession_caches_threads [OF run resp] run resp show ?thesis
    by simp
qed

text \<open>
  C9, as stated, fails: a second \<open>openSession\<close> on the open scenario session does not
  fail, and afterwards the session is open with two protocol sessions alive, the earlier
  one still carrying its five subscriptions.
\<close>

theorem reopen_leaves_two_sessions_alive:
  "fst (openSession scenarioEnv ''adapter'' ''launch'' scenarioOpen) = Inr ()
   \<and> debugSession (snd (openSession scenarioEnv ''adapter'' ''launch'' scenarioOpen)) = Some 1
   \<and> aliveSessions (snd (openSession scenarioEnv ''adapter'' ''launch'' scenarioOpen)) = [0, 1]
   \<and> subscriptionsOf (snd (openSession scenarioEnv ''adapter'' ''launch'' scenarioOpen)) 0
        = [OutputEvents, ContinuedEvents, StopEvents, ExitedDebugeeEvents, TerminateDebugeeEvents]"
proof -
  have run: "openSession scenarioEnv ''adapter'' ''launch'' scenarioOpen
      = (Inr (), opened ''adapter'' ''launch'' ''capabilities'' [\<lparr>thd_id = 1, thd_name = ''main''\<rparr>] scenarioOpen)"
    by (rule openSession_resolved) (simp_all add: scenarioEnv_def)
  show ?thesis
    unfolding run
    by (simp add: opened_def scenarioOpen_eq aliveSessions_def alive_def subscriptionsOf_def upt_rec)
qed

text \<open>
  C9, amended. \<open>openSession\<close> on an open session whose requests resolve does not fail.
  It stores the handle of a newly constructed session in place of the earlier one; no
  \<open>disconnect\<close> is sent to the earlier session, which stays alive, and the subscriptions
  made on it are all still in place.
\<close>

theorem openSession_while_open:
  assumes "debugSession d = Some s" and "alive d s"
    and "initializeResp e = Inr caps" and "launchResp e = Inr ()" and "threadsResp e = Inr ths"
  shows "fst (openSession e a l d) = Inr ()
       \<and> debugSession (snd (openSession e a l d)) = Some (length (sessions d))
       \<and> length (sessions d) \<noteq> s
       \<and> alive (snd (openSession e a l d)) s
       \<and> subscriptionsOf (snd (openSession e a l d)) s = subscriptionsOf d s
       \<and> (s, Disconnect) \<notin> set (requests (snd (openSession e a l d)))"
proof -
  from assms(2) have s: "s < length (sessions d)" and quiet: "(s, Disconnect) \<notin> set (requests d)"
    by (simp_all add: alive_def)
  have run: "openSession e a l d = (Inr (), opened a l caps ths d)"
    using assms(3-5) by (rule openSession_resolved)
  from s quiet show ?thesis
    unfolding run by (auto simp: opened_def alive_def subscriptionsOf_def)
qed

theorem openSession_while_open_witness:
  "debugSession scenarioOpen = Some 0 \<and> alive scenarioOpen 0
   \<and> initializeResp scenarioEnv = Inr ''capabilities'' \<and> launchResp scenarioEnv = Inr ()
   \<and> threadsResp scenarioEnv = Inr [\<lparr>thd_id = 1, thd_name = ''main''\<rparr>]
   \<and> fst (openSession scenarioEnv ''adapter'' ''launch'' scenarioOpen) = Inr ()
   \<and> debugSession (snd (openSession scenarioEnv ''adapter'' ''launch'' scenarioOpen)) = Some 1
   \<and> alive (snd (openSession scenarioEnv ''adapter'' ''launch'' scenarioOpen)) 0
   \<and> subscriptionsOf (snd (openSession scenarioEnv ''adapter'' ''launch'' scenarioOpen)) 0
        = subscriptionsOf scenarioOpen 0"
proof -
  have 1: "debugSession scenarioOpen = Some 0"
    by (simp add: scenarioOpen_eq)
  have 2: "alive scenarioOpen 0"
    by (simp add: scenarioOpen_eq alive_def)
  have 3: "initializeResp scenarioEnv = Inr ''capabilities''"
    and 4: "launchResp scenarioEnv = Inr ()"
    and 5: "threadsResp scenarioEnv = Inr [\<lparr>thd_id = 1, thd_name = ''main''\<rparr>]"
    by (simp_all add: scenarioEnv_def)
  have 6: "length (sessions scenarioOpen) = 1"
    by (simp add: scenarioOpen_eq)
  from openSession_while_open [OF 1 2 3 4 5, of "''adapter''" "''launch''"] 1 2 3 4 5 6
  show ?thesis
    by simp
qed

section \<open>Source lines\<close>

text \<open>
  C2. For \<open>start\<close> and \<open>length\<close> that are not negative, \<open>getSourceLines\<close> is the window
  of the cached lines: of the lines cached by reference when the source reference is
  present and not \<open>0\<close>; else of the lines cached by path when there is a path; else the
  call returns the empty sequence. A window that starts at or after the last line is
  empty, and one that runs over the end has \<open>totalLines - start\<close> lines. The call
  fails only when the lookup itself fails, never on account of \<open>start\<close> or \<open>length\<close>.
\<close>

theorem getSourceLines_window:
  assumes "0 \<le> start" and "0 \<le> len"
  shows "(\<forall>r. src_sourceReference src = Some r \<and> r \<noteq> 0 \<longrightarrow>
            getSourceLines e src start len d
              = windowOf start len (getFileDataBySourceReference e r d))
       \<and> (\<forall>p. (src_sourceReference src = None \<or> src_sourceReference src = Some 0)
                \<and> src_path src = Some p \<longrightarrow>
            getSourceLines e src start len d = windowOf start len (getFileDataByPath e p d))
       \<and> ((src_sourceReference src = None \<or> src_sourceReference src = Some 0)
                \<and> src_path src = None \<longrightarrow>
            getSourceLines e src start len d = (Inr [], d))
       \<and> (\<forall>lines::string list. int (length lines) \<le> start \<longrightarrow>
            window lines (nat start) (nat len) = [])
       \<and> (\<forall>lines::string list. start < int (length lines) \<and> int (length lines) < start + len \<longrightarrow>
            int (length (window lines (nat start) (nat len))) = int (length lines) - start)"
proof (intro conjI allI impI)
  fix r
  assume "src_sourceReference src = Some r \<and> r \<noteq> 0"
  then have "sourceLinesOf e src d = getFileDataBySourceReference e r d"
    by (simp add: sourceLinesOf_def)
  with assms show "getSourceLines e src start len d
      = windowOf start len (getFileDataBySourceReference e r d)"
    by (simp add: getSourceLines_windowOf)
next
  fix p
  assume "(src_sourceReference src = None \<or> src_sourceReference src = Some 0)
      \<and> src_path src = Some p"
  then have "sourceLinesOf e src d = getFileDataByPath e p d"
    by (auto simp: sourceLinesOf_def)
  with assms show "getSourceLines e src start len d = windowOf start len (getFileDataByPath e p d)"
    by (simp add: getSourceLines_windowOf)
next
  assume "(src_sourceReference src = None \<or> src_sourceReference src = Some 0)
      \<and> src_path src = None"
  then have "sourceLinesOf e src d = (Inr [], d)"
    by (auto simp: sourceLinesOf_def)
  with assms show "getSourceLines e src start len d = (Inr [], d)"
    by (simp add: getSourceLines_windowOf windowOf_def window_def)
next
  fix lines :: "string list"
  assume "int (length lines) \<le> start"
  with assms show "window lines (nat start) (nat len) = []"
    by (intro window_beyond) simp
next
  fix lines :: "string list"
  assume "start < int (length lines) \<and> int (length lines) < start + len"
  with assms show "int (length (window lines (nat start) (nat len))) = int (length lines) - start"
    by (simp add: length_window min_def) linarith
qed

theorem getSourceLines_window_witness:
  "(0::int) \<le> 4 \<and> (0::int) \<le> 5
   \<and> src_sourceReference bjs = None \<and> src_path bjs = Some ''/a/b.js''
   \<and> fst (getSourceLines scenarioEnv bjs 4 5 scenarioOpen) = Inr [''console.log('hi')'', '''']
   \<and> fst (getSourceLines scenarioEnv bjs 6 5 scenarioOpen) = Inr []"
proof -
  have src: "(src_sourceReference bjs = None \<or> src_sourceReference bjs = Some 0)
      \<and> src_path bjs = Some ''/a/b.js''"
    by (simp add: bjs_def)
  from getSourceLines_window [of 4 5 bjs scenarioEnv scenarioOpen] src
  have a: "getSourceLines scenarioEnv bjs 4 5 scenarioOpen
      = windowOf 4 5 (getFileDataByPath scenarioEnv ''/a/b.js'' scenarioOpen)"
    by simp
  from getSourceLines_window [of 6 5 bjs scenarioEnv scenarioOpen] src
  have b: "getSourceLines scenarioEnv bjs 6 5 scenarioOpen
      = windowOf 6 5 (getFileDataByPath scenarioEnv ''/a/b.js'' scenarioOpen)"
    by simp
  have w: "window [''l0'', ''l1'', ''l2'', ''l3'', ''console.log('hi')'', ''''] 4 5
      = [''console.log('hi')'', '''']"
    "window [''l0'', ''l1'', ''l2'', ''l3'', ''console.log('hi')'', ''''] 6 5 = []"
    by (simp_all add: window_def upt_rec)
  show ?thesis
    unfolding a b bjs_lines by (simp add: windowOf_def w bjs_def)
qed

section \<open>Closing a session\<close>

text \<open>
  C3. \<open>closeSession\<close> is idempotent. On a closed session it does nothing and does not
  throw, whatever the environment. On an open session whose \<open>disconnect\<close> request
  resolves, it sends \<open>disconnect\<close> to the session, empties the thread directory, clears
  the active thread and the handle, and leaves an empty cache; a second call, against
  any environment, then returns normally and changes nothing. The same holds for a call
  made after an exited event whose close has completed.
\<close>

theorem closeSession_idempotent:
  "(debugSession d = None \<longrightarrow> closeSession e d = (Inr (), d))
   \<and> (debugSession d = Some s \<and> disconnectResp e = Inr () \<longrightarrow>
        closeSession e d =
          (Inr (), d\<lparr>threads := Map.empty, debugSession := None, activeThread := None,
                      sourceFiles := emptyCache, requests := requests d @ [(s, Disconnect)]\<rparr>)
        \<and> closeSession e' (snd (closeSession e d)) = (Inr (), snd (closeSession e d)))
   \<and> closeSession e' (disconnectSettled (Inr ()) (onExitedDebugee c d))
        = (Inr (), disconnectSettled (Inr ()) (onExitedDebugee c d))"
proof (intro conjI impI)
  assume "debugSession d = None"
  then show "closeSession e d = (Inr (), d)"
    by (rule closeSession_closed)
next
  assume isOpen: "debugSession d = Some s \<and> disconnectResp e = Inr ()"
  then show first: "closeSession e d =
      (Inr (), d\<lparr>threads := Map.empty, debugSession := None, activeThread := None,
                  sourceFiles := emptyCache, requests := requests d @ [(s, Disconnect)]\<rparr>)"
    by (simp add: closeSession_open)
  have "debugSession (snd (closeSession e d)) = None"
    by (simp add: first)
  then show "closeSession e' (snd (closeSession e d)) = (Inr (), snd (closeSession e d))"
    by (rule closeSession_closed)
next
  show "closeSession e' (disconnectSettled (Inr ()) (onExitedDebugee c d))
        = (Inr (), disconnectSettled (Inr ()) (onExitedDebugee c d))"
    by (rule closeSession_closed [OF closed_after_settle])
qed

theorem closeSession_idempotent_witness:
  "debugSession scenarioOpen = Some 0 \<and> disconnectResp scenarioEnv = Inr ()
   \<and> debugSession initial = None \<and> closeSession scenarioEnv initial = (Inr (), initial)
   \<and> closeSession scenarioEnv scenarioOpen =
        (Inr (), scenarioOpen\<lparr>threads := Map.empty, debugSession := None, activeThread := None,
                   sourceFiles := emptyCache, requests := requests scenarioOpen @ [(0, Disconnect)]\<rparr>)
   \<and> closeSession scenarioEnv (snd (closeSession scenarioEnv scenarioOpen))
        = (Inr (), snd (closeSession scenarioEnv scenarioOpen))"
proof -
  have a: "debugSession scenarioOpen = Some 0 \<and> disconnectResp scenarioEnv = Inr ()"
    by (simp add: scenarioOpen_eq scenarioEnv_def)
  have b: "debugSession initial = None"
    by (simp add: initial_def)
  from closeSession_idempotent [of initial scenarioEnv 0 scenarioEnv 0] b
  have c: "closeSession scenarioEnv initial = (Inr (), initial)"
    by blast
  from closeSession_idempotent [of scenarioOpen scenarioEnv 0 scenarioEnv 0] a
  have d: "closeSession scenarioEnv scenarioOpen =
        (Inr (), scenarioOpen\<lparr>threads := Map.empty, debugSession := None, activeThread := None,
                   sourceFiles := emptyCache, requests := requests scenarioOpen @ [(0, Disconnect)]\<rparr>)
     \<and> closeSession scenarioEnv (snd (closeSession scenarioEnv scenarioOpen))
        = (Inr (), snd (closeSession scenarioEnv scenarioOpen))"
    by blast
  from a b c d show ?thesis
    by blast
qed

section \<open>Stepping without an active thread\<close>

text \<open>
  C4. In every state whose active thread is null (the value \<open>getActiveThread\<close> hands out),
  \<open>stepIn\<close> and \<open>stepOver\<close> fail with an error whose message says ``step into'' for the
  one and ``step through'' for the other, the two errors differ, and neither call sends
  a request: the state, and with it the list of requests, is unchanged.
\<close>

theorem step_without_active_thread:
  assumes "activeThread d = None"
  shows "stepIn e d = (Inl (Error ''There is no active thread to step into.''), d)
       \<and> stepOver e d = (Inl (Error ''There is no active thread to step through.''), d)
       \<and> requests (snd (stepIn e d)) = requests d
       \<and> requests (snd (stepOver e d)) = requests d
       \<and> fst (stepIn e d) \<noteq> fst (stepOver e d)"
  unfolding stepIn_def stepOver_def using assms by simp

theorem step_without_active_thread_witness:
  "getActiveThread (scenarioOpen\<lparr>activeThread := None\<rparr>) = Inr None
   \<and> fst (stepIn scenarioEnv (scenarioOpen\<lparr>activeThread := None\<rparr>))
        = Inl (Error ''There is no active thread to step into.'')
   \<and> fst (stepOver scenarioEnv (scenarioOpen\<lparr>activeThread := None\<rparr>))
        = Inl (Error ''There is no active thread to step through.'')
   \<and> requests (snd (stepIn scenarioEnv (scenarioOpen\<lparr>activeThread := None\<rparr>))) = requests scenarioOpen
   \<and> requests (snd (stepOver scenarioEnv (scenarioOpen\<lparr>activeThread := None\<rparr>))) = requests scenarioOpen"
  using step_without_active_thread [of "scenarioOpen\<lparr>activeThread := None\<rparr>" scenarioEnv]
  by (simp add: getActiveThread_def ensureDebugSession_def scenarioOpen_eq)

section \<open>Terminated and exited events\<close>

text \<open>
  C5. Two terminated events that reach the handler one after the other, before the
  \<open>disconnect\<close> request of the first has settled: the handle is cleared only after the
  \<open>await\<close> inside \<open>closeSession\<close>, which the handler does not wait for, so the guard of
  the second event still sees a session. The second event is not a no-op: the line
  ``The target has exited.'' is printed twice, input is resumed twice, and \<open>disconnect\<close>
  is called twice on the session.
\<close>

theorem terminated_twice_before_disconnect_settles:
  "debugSession scenarioOpen = Some 0
   \<and> console (onTerminatedDebugee (onTerminatedDebugee scenarioOpen)) =
       [OutputLine ''The target has exited.'', StartInput,
        OutputLine ''The target has exited.'', StartInput]
   \<and> requests (onTerminatedDebugee (onTerminatedDebugee scenarioOpen)) =
       requests scenarioOpen @ [(0, Disconnect), (0, Disconnect)]
   \<and> onTerminatedDebugee (onTerminatedDebugee scenarioOpen) \<noteq> onTerminatedDebugee scenarioOpen"
  by (simp add: scenarioOpen_eq onTerminatedDebugee_def closeSession_detached_def
      closeSession_start_def tell_def send_def)

text \<open>The same for every open session: the second event repeats the whole reaction.\<close>

lemma terminated_twice:
  assumes "debugSession d = Some s"
  shows "console (onTerminatedDebugee (onTerminatedDebugee d)) =
           console d @ [OutputLine ''The target has exited.'', StartInput,
                        OutputLine ''The target has exited.'', StartInput]"
    and "requests (onTerminatedDebugee (onTerminatedDebugee d)) =
           requests d @ [(s, Disconnect), (s, Disconnect)]"
  using assms
  by (simp_all add: onTerminatedDebugee_def closeSession_detached_def closeSession_start_def
      tell_def send_def)

text \<open>
  When the close started by the first terminated event has completed before the second
  event arrives, the guard holds and the second event changes nothing.
\<close>

lemma terminated_after_close_completed:
  assumes "debugSession d = Some s"
  shows "onTerminatedDebugee (disconnectSettled (Inr ()) (onTerminatedDebugee d))
         = disconnectSettled (Inr ()) (onTerminatedDebugee d)"
proof -
  have "debugSession (disconnectSettled (Inr ()) (onTerminatedDebugee d)) = None"
    using assms
    by (simp add: onTerminatedDebugee_def closeSession_detached_def closeSession_start_def
        tell_def send_def disconnectSettled_def closeSession_finish_def)
  then show ?thesis
    by (simp add: onTerminatedDebugee_def)
qed

text \<open>
  C6, as stated, fails: after the exited event the session has not become closed, and a
  \<open>getThreads\<close> that follows does not fail but returns the directory. The handler only
  starts the close; the handle is cleared when the \<open>disconnect\<close> request has resolved.
\<close>

theorem exited_leaves_session_open:
  "debugSession scenarioOpen = Some 0
   \<and> debugSession (onExitedDebugee 1 scenarioOpen) = Some 0
   \<and> getThreads (onExitedDebugee 1 scenarioOpen) = Inr [1 \<mapsto> ''main'']
   \<and> getThreads (onExitedDebugee 1 scenarioOpen) \<noteq> Inl (Error ''There is no active debugging session.'')"
  by (simp add: scenarioOpen_eq onExitedDebugee_def closeSession_detached_def
      closeSession_start_def tell_def send_def getThreads_def ensureDebugSession_def)

text \<open>
  C6, amended. An exited event with a safe integer exit code \<open>c\<close> on an open session
  prints ``Target exited with status c'' once, \<open>c\<close> as its decimal numeral, and starts
  the close by calling \<open>disconnect\<close>. Until that request has resolved the session is
  still open and \<open>getThreads\<close> returns the directory. When it has resolved nothing more
  was printed, the session is closed, and \<open>getThreads\<close> fails with the error of
  \<open>_ensureDebugSession\<close>.
\<close>

theorem exited_while_open_closes:
  assumes "debugSession d = Some s" and "safeInteger c"
  shows "console (onExitedDebugee c d) =
           console d @ [OutputLine (''Target exited with status '' @ toString c)]
       \<and> decimalValue (toString c) = Some c
       \<and> requests (onExitedDebugee c d) = requests d @ [(s, Disconnect)]
       \<and> debugSession (onExitedDebugee c d) = Some s
       \<and> getThreads (onExitedDebugee c d) = Inr (threads d)
       \<and> console (disconnectSettled (Inr ()) (onExitedDebugee c d)) = console (onExitedDebugee c d)
       \<and> debugSession (disconnectSettled (Inr ()) (onExitedDebugee c d)) = None
       \<and> getThreads (disconnectSettled (Inr ()) (onExitedDebugee c d))
            = Inl (Error ''There is no active debugging session.'')"
proof -
  have started: "onExitedDebugee c d =
      d\<lparr>console := console d @ [OutputLine (''Target exited with status '' @ toString c)],
        requests := requests d @ [(s, Disconnect)], closing := closing d + 1\<rparr>"
    using assms(1)
    by (simp add: onExitedDebugee_def closeSession_detached_def closeSession_start_def tell_def send_def)
  have finished: "disconnectSettled (Inr ()) (onExitedDebugee c d) =
      closeSession_finish ((onExitedDebugee c d)\<lparr>closing := closing d\<rparr>)"
    by (simp add: started disconnectSettled_def)
  have before: "debugSession (onExitedDebugee c d) = Some s
      \<and> getThreads (onExitedDebugee c d) = Inr (threads d)"
    using assms(1) by (simp add: started getThreads_def ensureDebugSession_def)
  have after: "console (disconnectSettled (Inr ()) (onExitedDebugee c d)) = console (onExitedDebugee c d)
      \<and> debugSession (disconnectSettled (Inr ()) (onExitedDebugee c d)) = None
      \<and> getThreads (disconnectSettled (Inr ()) (onExitedDebugee c d))
            = Inl (Error ''There is no active debugging session.'')"
    unfolding finished by (simp add: closeSession_finish_def getThreads_def ensureDebugSession_def)
  have printed: "console (onExitedDebugee c d) =
           console d @ [OutputLine (''Target exited with status '' @ toString c)]
       \<and> requests (onExitedDebugee c d) = requests d @ [(s, Disconnect)]"
    by (simp add: started)
  from printed before after decimalValue_toString [of c] show ?thesis
    by blast
qed

theorem exited_while_open_closes_witness:
  "debugSession scenarioOpen = Some 0 \<and> safeInteger 1
   \<and> console (onExitedDebugee 1 scenarioOpen) = [OutputLine ''Target exited with status 1'']
   \<and> decimalValue ''1'' = Some 1
   \<and> getThreads (onExitedDebugee 1 scenarioOpen) = Inr [1 \<mapsto> ''main'']
   \<and> console (disconnectSettled (Inr ()) (onExitedDebugee 1 scenarioOpen))
        = [OutputLine ''Target exited with status 1'']
   \<and> debugSession (disconnectSettled (Inr ()) (onExitedDebugee 1 scenarioOpen)) = None
   \<and> getThreads (disconnectSettled (Inr ()) (onExitedDebugee 1 scenarioOpen))
        = Inl (Error ''There is no active debugging session.'')"
proof -
  have opened: "debugSession scenarioOpen = Some 0"
    and quiet: "console scenarioOpen = []"
    and dir: "threads scenarioOpen = [1 \<mapsto> ''main'']"
    by (simp_all add: scenarioOpen_eq)
  have safe: "safeInteger 1"
    by (rule safeInteger_small)
  from exited_while_open_closes [OF opened safe] opened safe quiet dir toString_1
  show ?thesis
    by simp
qed

text \<open>
  C10. When the session is already closed, an exited event still prints
  ``Target exited with status <code>'', the code as its decimal numeral: the handler has
  no guard, and the call of \<open>closeSession\<close> it makes returns at once, so nothing but the
  console changes. A further exited event prints a further line. The terminated handler,
  which has the guard, leaves the same state untouched. The example is a session that
  was open and was closed by an exited event: two late exited events print two more
  lines.
\<close>

theorem exited_while_closed_prints_again:
  assumes "debugSession d = None" and "safeInteger c" and "safeInteger c'"
  shows "onExitedDebugee c d =
           d\<lparr>console := console d @ [OutputLine (''Target exited with status '' @ toString c)]\<rparr>
       \<and> onExitedDebugee c' (onExitedDebugee c d) =
           d\<lparr>console := console d @ [OutputLine (''Target exited with status '' @ toString c),
                                      OutputLine (''Target exited with status '' @ toString c')]\<rparr>
       \<and> decimalValue (toString c) = Some c \<and> decimalValue (toString c') = Some c'
       \<and> closeSession_detached d = d
       \<and> onTerminatedDebugee d = d"
proof -
  from assms(1) have noop: "closeSession_detached d = d"
    by (simp add: closeSession_detached_def closeSession_start_def)
  have still: "debugSession (tell x d) = None" for x
    using assms(1) by (simp add: tell_def)
  have first: "onExitedDebugee c d =
      d\<lparr>console := console d @ [OutputLine (''Target exited with status '' @ toString c)]\<rparr>"
    using still by (simp add: onExitedDebugee_def closeSession_detached_def closeSession_start_def tell_def)
  have second: "onExitedDebugee c' (onExitedDebugee c d) =
           d\<lparr>console := console d @ [OutputLine (''Target exited with status '' @ toString c),
                                      OutputLine (''Target exited with status '' @ toString c')]\<rparr>"
    unfolding first using assms(1)
    by (simp add: onExitedDebugee_def closeSession_detached_def closeSession_start_def tell_def)
  have guard: "onTerminatedDebugee d = d"
    using assms(1) by (simp add: onTerminatedDebugee_def)
  from first second noop guard decimalValue_toString [of c] decimalValue_toString [of c']
  show ?thesis
    by blast
qed

theorem exited_while_closed_prints_again_witness:
  "debugSession scenarioClosed = None \<and> safeInteger 1
   \<and> console scenarioClosed = [OutputLine ''Target exited with status 1'']
   \<and> console (onExitedDebugee 1 scenarioClosed) =
        [OutputLine ''Target exited with status 1'', OutputLine ''Target exited with status 1'']
   \<and> console (onExitedDebugee 1 (onExitedDebugee 1 scenarioClosed)) =
        [OutputLine ''Target exited with status 1'', OutputLine ''Target exited with status 1'',
         OutputLine ''Target exited with status 1'']
   \<and> requests (onExitedDebugee 1 (onExitedDebugee 1 scenarioClosed)) = requests scenarioClosed
   \<and> decimalValue ''1'' = Some 1
   \<and> onTerminatedDebugee scenarioClosed = scenarioClosed"
proof -
  have closed: "debugSession scenarioClosed = None"
    and shown: "console scenarioClosed = [OutputLine ''Target exited with status 1'']"
    by (simp_all add: scenarioClosed_eq)
  have safe: "safeInteger 1"
    by (rule safeInteger_small)
  from exited_while_closed_prints_again [OF closed safe safe]
  have once: "onExitedDebugee 1 scenarioClosed =
      scenarioClosed\<lparr>console := console scenarioClosed @
        [OutputLine (''Target exited with status '' @ toString 1)]\<rparr>"
    and twice: "onExitedDebugee 1 (onExitedDebugee 1 scenarioClosed) =
      scenarioClosed\<lparr>console := console scenarioClosed @
        [OutputLine (''Target exited with status '' @ toString 1),
         OutputLine (''Target exited with status '' @ toString 1)]\<rparr>"
    and numeral: "decimalValue (toString 1) = Some 1"
    and quiet: "onTerminatedDebugee scenarioClosed = scenarioClosed"
    by blast+
  from numeral have numeral': "decimalValue ''1'' = Some 1"
    by (simp only: toString_1)
  have c1: "console (onExitedDebugee 1 scenarioClosed) =
      [OutputLine ''Target exited with status 1'', OutputLine ''Target exited with status 1'']"
    by (subst once) (simp add: shown toString_1)
  have c2: "console (onExitedDebugee 1 (onExitedDebugee 1 scenarioClosed)) =
      [OutputLine ''Target exited with status 1'', OutputLine ''Target exited with status 1'',
       OutputLine ''Target exited with status 1'']"
    by (subst twice) (simp add: shown toString_1)
  have r2: "requests (onExitedDebugee 1 (onExitedDebugee 1 scenarioClosed)) = requests scenarioClosed"
    by (subst twice) simp
  from closed safe shown c1 c2 r2 numeral' quiet show ?thesis
    by blast
qed

section \<open>The stopped event\<close>

text \<open>
  C7. A stopped event for the active thread, whose top stack frame has a source: the
  handler prints one line, ``<resolved-name>:<line+1> <line-text>'', where the number is
  the decimal numeral of the frame's line plus one (the line being a safe integer) and
  the text is the first of the lines that \<open>getSourceLines\<close> returns for the frame's line
  (empty when it returns none), and then resumes input. When the source has neither path
  nor name nothing is printed; input is resumed all the same. In the scenario the line is
  \<open>b.js:5 console.log('hi')\<close>.
\<close>

theorem stopped_prints_location:
  assumes "activeThread d = Some t" and "debugSession d = Some s"
    and "stackTraceResp e t 1 = Inr (frame # rest)" and "frame_source frame = Some src"
    and "fst (getSourceLines e src (frame_line frame) 1 (send s (StackTrace t 1) d)) = Inr lines"
    and "safeInteger (frame_line frame)" and "safeInteger (frame_line frame + 1)"
  shows "fst (onStopped e (Some t) d) = Inr ()
       \<and> console (snd (onStopped e (Some t) d)) =
           console d @
           (case resolvedName src of
              None \<Rightarrow> []
            | Some n \<Rightarrow> [OutputLine (n @ '':'' @ toString (frame_line frame + 1) @ '' '' @
                                     (case lines of [] \<Rightarrow> [] | x # _ \<Rightarrow> x))])
           @ [StartInput]
       \<and> decimalValue (toString (frame_line frame + 1)) = Some (frame_line frame + 1)"
proof -
  let ?d1 = "send s (StackTrace t 1) d"
  have trace: "getStackTrace e t (Some 1) d = (Inr (frame # rest), ?d1)"
    using assms(2,3) by (simp add: getStackTrace_def ensureDebugSession_def)
  obtain d2 where look: "getSourceLines e src (frame_line frame) 1 ?d1 = (Inr lines, d2)"
    using assms(5) by (cases "getSourceLines e src (frame_line frame) 1 ?d1") simp
  have "unchanged ?d1 d2"
    using getSourceLines_unchanged [of ?d1 e src "frame_line frame" 1] look by simp
  with unchanged_send [of d s "StackTrace t 1"] have "unchanged d d2"
    by (rule unchanged_trans)
  then have quiet: "console d2 = console d"
    by (simp add: unchanged_def)
  have printed: "fst (onStopped e (Some t) d) = Inr ()
       \<and> console (snd (onStopped e (Some t) d)) =
           console d @
           (case resolvedName src of
              None \<Rightarrow> []
            | Some n \<Rightarrow> [OutputLine (n @ '':'' @ toString (frame_line frame + 1) @ '' '' @
                                     (case lines of [] \<Rightarrow> [] | x # _ \<Rightarrow> x))])
           @ [StartInput]"
  proof (cases "src_path src")
    case (Some p)
    with trace look assms(1,4) quiet show ?thesis
      by (simp add: onStopped_def getTopOfStackSourceInfo_def sourceFromTopFrame_def
          resolvedName_def tell_def)
  next
    case None
    with trace look assms(1,4) quiet show ?thesis
      by (cases "src_name src")
        (simp_all add: onStopped_def getTopOfStackSourceInfo_def sourceFromTopFrame_def
          resolvedName_def tell_def)
  qed
  with decimalValue_toString [of "frame_line frame + 1"] show ?thesis
    by blast
qed

theorem stopped_prints_location_witness:
  "activeThread scenarioOpen = Some 1 \<and> debugSession scenarioOpen = Some 0
   \<and> stackTraceResp scenarioEnv 1 1 = Inr [scenarioFrame]
   \<and> frame_source scenarioFrame = Some bjs \<and> src_path bjs = Some ''/a/b.js''
   \<and> frame_line scenarioFrame = 4 \<and> safeInteger 4 \<and> safeInteger 5
   \<and> fst (getSourceLines scenarioEnv bjs 4 1 (send 0 (StackTrace 1 1) scenarioOpen))
        = Inr [''console.log('hi')'']
   \<and> console (snd (onStopped scenarioEnv (Some 1) scenarioOpen))
        = [OutputLine ''b.js:5 console.log('hi')'', StartInput]
   \<and> decimalValue ''5'' = Some 5"
proof -
  have 1: "activeThread scenarioOpen = Some 1" and 2: "debugSession scenarioOpen = Some 0"
    and quiet: "console scenarioOpen = []"
    by (simp_all add: scenarioOpen_eq)
  have 3: "stackTraceResp scenarioEnv 1 1 = Inr (scenarioFrame # [])"
    by (simp add: scenarioEnv_def scenarioFrame_def bjs_def)
  have 4: "frame_source scenarioFrame = Some bjs" and line: "frame_line scenarioFrame = 4"
    by (simp_all add: scenarioFrame_def)
  have 5: "fst (getSourceLines scenarioEnv bjs (frame_line scenarioFrame) 1
              (send 0 (StackTrace 1 1) scenarioOpen)) = Inr [''console.log('hi')'']"
    by (simp add: line getSourceLines_def sourceLinesOf_def bjs_def getFileDataByPath_def
        scenarioEnv_def scenarioOpen_eq emptyCache_def send_def Let_def slice_def)
  have 6: "safeInteger (frame_line scenarioFrame)" and 7: "safeInteger (frame_line scenarioFrame + 1)"
    by (simp_all add: line safeInteger_def)
  have safe: "safeInteger 4" "safeInteger 5"
    by (simp_all add: safeInteger_def)
  have name: "resolvedName bjs = Some ''b.js''"
    by (simp add: resolvedName_def bjs_def lastPathSegment_def)
  have five: "toString 5 = ''5''"
    by (simp add: toString_def showNat.simps)
  from stopped_prints_location [OF 1 2 3 4 5 6 7]
  have shown: "console (snd (onStopped scenarioEnv (Some 1) scenarioOpen)) =
      console scenarioOpen @
      (case resolvedName bjs of
         None \<Rightarrow> []
       | Some n \<Rightarrow> [OutputLine (n @ '':'' @ toString (frame_line scenarioFrame + 1) @ '' '' @
                                (case [''console.log('hi')''] of [] \<Rightarrow> [] | x # _ \<Rightarrow> x))])
      @ [StartInput]"
    and numeral: "decimalValue (toString (frame_line scenarioFrame + 1)) = Some (frame_line scenarioFrame + 1)"
    by blast+
  from numeral have numeral': "decimalValue ''5'' = Some 5"
    by (simp only: line five) (simp add: five)
  have out: "console (snd (onStopped scenarioEnv (Some 1) scenarioOpen))
        = [OutputLine ''b.js:5 console.log('hi')'', StartInput]"
    by (subst shown) (simp add: quiet name line five)
  have src: "src_path bjs = Some ''/a/b.js''"
    by (simp add: bjs_def)
  have trace': "stackTraceResp scenarioEnv 1 1 = Inr [scenarioFrame]"
    using 3 by simp
  have look': "fst (getSourceLines scenarioEnv bjs 4 1 (send 0 (StackTrace 1 1) scenarioOpen))
        = Inr [''console.log('hi')'']"
    using 5 by (simp only: line)
  from 1 2 trace' 4 src line safe look' out numeral' show ?thesis
    by blast
qed

section \<open>The invariant of the active thread\<close>

text \<open>
  The invariant holds after the constructor, and every part of every operation and every
  handler preserves it, with one exception: the part of \<open>_cacheThreads\<close> after
  \<open>await threads()\<close> establishes it when there is a session, and breaks it when the
  session was closed in the meantime and a thread is reported.
\<close>

lemma activeThreadInv_same:
  assumes "debugSession d' = debugSession d" and "activeThread d' = activeThread d"
    and "threads d' = threads d"
  shows "activeThreadInv d' = activeThreadInv d"
  by (simp add: activeThreadInv_def assms cong: option.case_cong)

lemma activeThreadInv_unchanged: "unchanged d d' \<Longrightarrow> activeThreadInv d \<Longrightarrow> activeThreadInv d'"
  by (simp add: unchanged_def activeThreadInv_def cong: option.case_cong)

lemma activeThreadInv_tell: "activeThreadInv (tell c d) = activeThreadInv d"
  by (rule activeThreadInv_same) (simp_all add: tell_def)

lemma activeThreadInv_send: "activeThreadInv (send s r d) = activeThreadInv d"
  by (rule activeThreadInv_same) (simp_all add: send_def)

lemma activeThreadInv_finish: "activeThreadInv (closeSession_finish d)"
  by (simp add: activeThreadInv_def closeSession_finish_def)

lemma closeSession_inv:
  assumes "activeThreadInv d"
  shows "activeThreadInv (snd (closeSession e d))"
proof (cases "debugSession d")
  case None
  with assms show ?thesis
    by (simp add: closeSession_def closeSession_start_def)
next
  case (Some s)
  then show ?thesis
    using assms
    by (cases "disconnectResp e")
      (simp_all add: closeSession_def closeSession_start_def activeThreadInv_send
        activeThreadInv_finish)
qed

lemma closeSession_detached_inv: "activeThreadInv (closeSession_detached d) = activeThreadInv d"
  by (rule activeThreadInv_same)
    (simp_all add: closeSession_detached_def closeSession_start_def send_def split: option.splits)

lemma disconnectSettled_inv:
  assumes "activeThreadInv d"
  shows "activeThreadInv (disconnectSettled r d)"
proof (cases "closing d = 0")
  case True
  with assms show ?thesis
    by (simp add: disconnectSettled_def)
next
  case False
  show ?thesis
  proof (cases r)
    case (Inl x)
    have "activeThreadInv (d\<lparr>closing := closing d - 1\<rparr>) = activeThreadInv d"
      by (rule activeThreadInv_same) simp_all
    with False Inl assms show ?thesis
      by (simp add: disconnectSettled_def)
  next
    case (Inr u)
    with False show ?thesis
      by (simp add: disconnectSettled_def activeThreadInv_finish)
  qed
qed

lemma step_inv:
  assumes "activeThreadInv d"
  shows "activeThreadInv (snd (stepIn e d))" and "activeThreadInv (snd (stepOver e d))"
  using assms
  by (simp_all add: stepIn_def stepOver_def activeThreadInv_send split: option.splits sum.splits)

lemma onStopped_inv:
  assumes "activeThreadInv d"
  shows "activeThreadInv (snd (onStopped e stopThread d))"
proof -
  obtain res d1 where top: "getTopOfStackSourceInfo e (the stopThread) d = (res, d1)"
    by (cases "getTopOfStackSourceInfo e (the stopThread) d")
  with getTopOfStackSourceInfo_unchanged [of d e "the stopThread"] assms
  have "activeThreadInv d1"
    by (simp add: activeThreadInv_unchanged)
  with assms top show ?thesis
    by (cases stopThread; cases res)
      (simp_all add: onStopped_def activeThreadInv_tell split: option.splits)
qed

lemma activeThreadInv_initial: "activeThreadInv initial"
  by (simp add: activeThreadInv_def initial_def)

lemma openSession_start_inv:
  assumes "activeThreadInv d"
  shows "activeThreadInv (snd (openSession_start a d))"
  using assms
  by (simp add: openSession_start_def Let_def activeThreadInv_def send_def split: option.splits)

lemma openSession_initialized_inv:
  "activeThreadInv (openSession_initialized s l caps d) = activeThreadInv d"
  by (rule activeThreadInv_same)
    (simp_all add: openSession_initialized_def send_def subscribeAll_def)

lemma cacheThreads_start_inv:
  assumes "cacheThreads_start d = Inr d'"
  shows "activeThreadInv d' = activeThreadInv d"
proof -
  from assms obtain s where "d' = send s Threads d"
    by (auto simp: cacheThreads_start_def split: option.splits)
  then show ?thesis
    by (simp only: activeThreadInv_send)
qed

lemma cacheThreads_finish_open:
  assumes "debugSession d \<noteq> None"
  shows "activeThreadInv (cacheThreads_finish ths d)"
  using assms
  by (cases ths) (simp_all add: cacheThreads_finish_def activeThreadInv_def threadMap_first)

lemma cacheThreads_finish_closed:
  assumes "debugSession d = None" and "ths \<noteq> []"
  shows "\<not> activeThreadInv (cacheThreads_finish ths d)"
  using assms
  by (cases ths) (simp_all add: cacheThreads_finish_def activeThreadInv_def)

lemma handlers_inv:
  assumes "activeThreadInv d"
  shows "activeThreadInv (onOutput out d)" and "activeThreadInv (onContinued t d)"
    and "activeThreadInv (onExitedDebugee c d)" and "activeThreadInv (onTerminatedDebugee d)"
  using assms
  by (simp_all add: onOutput_def onContinued_def onExitedDebugee_def onTerminatedDebugee_def
      closeSession_detached_inv activeThreadInv_tell split: option.splits)

text \<open>
  C8. The invariant is not preserved. \<open>openSession\<close> is suspended with the exit handlers
  subscribed; a terminated event is delivered while \<open>launch\<close> is awaited and starts a
  close; \<open>launch\<close> resolves and \<open>_cacheThreads\<close> passes its assertion, the handle still
  being there, and calls \<open>threads()\<close>; \<open>disconnect\<close> resolves and the close clears the
  handle, the invariant still holding; \<open>threads()\<close> resolves with the thread \<open>main\<close>, and
  the active thread becomes \<open>1\<close> while there is no session. The same happens when the
  terminated event is delivered while \<open>threads()\<close> is awaited.
\<close>

theorem threads_after_close_breaks_invariant:
  "fst (openSession_start ''adapter'' initial) = 0
   \<and> cacheThreads_start (onTerminatedDebugee scenarioLaunching) = Inr scenarioRaced
   \<and> activeThreadInv (disconnectSettled (Inr ()) scenarioRaced)
   \<and> debugSession (disconnectSettled (Inr ()) scenarioRaced) = None
   \<and> debugSession (cacheThreads_finish [\<lparr>thd_id = 1, thd_name = ''main''\<rparr>]
        (disconnectSettled (Inr ()) scenarioRaced)) = None
   \<and> activeThread (cacheThreads_finish [\<lparr>thd_id = 1, thd_name = ''main''\<rparr>]
        (disconnectSettled (Inr ()) scenarioRaced)) = Some 1
   \<and> \<not> activeThreadInv (cacheThreads_finish [\<lparr>thd_id = 1, thd_name = ''main''\<rparr>]
        (disconnectSettled (Inr ()) scenarioRaced))
   \<and> cacheThreads_start scenarioLaunching = Inr (send 0 Threads scenarioLaunching)
   \<and> \<not> activeThreadInv (cacheThreads_finish [\<lparr>thd_id = 1, thd_name = ''main''\<rparr>]
        (disconnectSettled (Inr ()) (onTerminatedDebugee (send 0 Threads scenarioLaunching))))"
proof -
  have handle: "fst (openSession_start ''adapter'' initial) = 0"
    by (simp add: openSession_start_def initial_def Let_def)
  have event: "onTerminatedDebugee scenarioLaunching =
      scenarioLaunching\<lparr>console := [OutputLine ''The target has exited.'', StartInput],
        requests := requests scenarioLaunching @ [(0, Disconnect)], closing := 1\<rparr>"
    by (simp add: scenarioLaunching_eq onTerminatedDebugee_def closeSession_detached_def
        closeSession_start_def tell_def send_def)
  have raced: "scenarioRaced =
      scenarioLaunching\<lparr>console := [OutputLine ''The target has exited.'', StartInput],
        requests := requests scenarioLaunching @ [(0, Disconnect), (0, Threads)], closing := 1\<rparr>"
    unfolding scenarioRaced_def event by (simp add: send_def)
  have "debugSession (onTerminatedDebugee scenarioLaunching) = Some 0"
    unfolding event by (simp add: scenarioLaunching_eq)
  then have check: "cacheThreads_start (onTerminatedDebugee scenarioLaunching) = Inr scenarioRaced"
    by (simp add: scenarioRaced_def cacheThreads_start_def)
  have closed: "debugSession (disconnectSettled (Inr ()) scenarioRaced) = None"
    unfolding raced by (simp add: disconnectSettled_def closeSession_finish_def)
  have before: "activeThreadInv (disconnectSettled (Inr ()) scenarioRaced)"
    unfolding raced by (simp add: disconnectSettled_def closeSession_finish_def activeThreadInv_def)
  have session: "debugSession (cacheThreads_finish [\<lparr>thd_id = 1, thd_name = ''main''\<rparr>]
        (disconnectSettled (Inr ()) scenarioRaced)) = None"
    using closed by (simp add: cacheThreads_finish_def)
  have active: "activeThread (cacheThreads_finish [\<lparr>thd_id = 1, thd_name = ''main''\<rparr>]
        (disconnectSettled (Inr ()) scenarioRaced)) = Some 1"
    by (simp add: cacheThreads_finish_def)
  have broken: "\<not> activeThreadInv (cacheThreads_finish [\<lparr>thd_id = 1, thd_name = ''main''\<rparr>]
        (disconnectSettled (Inr ()) scenarioRaced))"
    using closed by (intro cacheThreads_finish_closed) simp_all
  have check': "cacheThreads_start scenarioLaunching = Inr (send 0 Threads scenarioLaunching)"
    by (simp add: cacheThreads_start_def scenarioLaunching_eq)
  have "debugSession (send 0 Threads scenarioLaunching) = Some 0"
    by (simp add: scenarioLaunching_eq send_def)
  then have "debugSession (disconnectSettled (Inr ())
      (onTerminatedDebugee (send 0 Threads scenarioLaunching))) = None"
    by (simp add: onTerminatedDebugee_def closeSession_detached_def
        closeSession_start_def tell_def send_def disconnectSettled_def closeSession_finish_def)
  then have broken': "\<not> activeThreadInv (cacheThreads_finish [\<lparr>thd_id = 1, thd_name = ''main''\<rparr>]
        (disconnectSettled (Inr ()) (onTerminatedDebugee (send 0 Threads scenarioLaunching))))"
    by (intro cacheThreads_finish_closed) simp_all
  from handle check before closed session active broken check' broken' show ?thesis
    by blast
qed

end
